theory Spec2Isabelle
  imports Main
begin

section \<open>JavaScript strings\<close>

text \<open>
  A JavaScript string is a sequence of UTF-16 code units; \<open>length\<close>, \<open>includes\<close>,
  \<open>startsWith\<close>, \<open>===\<close> and a regular expression without the \<open>u\<close> flag all work on
  code units. The Turkish letters of the feeds lie outside Latin-1, so a string is a list of
  natural numbers, one per code unit. \<open>str\<close> reads an ASCII literal.
\<close>

type_synonym jsstring = "nat list"

definition str :: "string \<Rightarrow> jsstring" where
  "str s = map of_char s"

text \<open>
  \<open>String.prototype.toLowerCase\<close> on one code unit. The mapping is Unicode's for
  U+0000..U+017F (Basic Latin, Latin-1 Supplement, Latin Extended-A, where every Turkish letter
  lives); U+0130 (capital I with dot) lower-cases to the two units U+0069 U+0307. Code units
  above U+017F are left as they are.
\<close>

definition lowerUnit :: "nat \<Rightarrow> jsstring" where
  "lowerUnit c =
     (if 65 \<le> c \<and> c \<le> 90 then [c + 32]
      else if 192 \<le> c \<and> c \<le> 222 \<and> c \<noteq> 215 then [c + 32]
      else if c = 304 then [105, 775]
      else if ((256 \<le> c \<and> c \<le> 303) \<or> (306 \<le> c \<and> c \<le> 311) \<or> (330 \<le> c \<and> c \<le> 375)) \<and> even c
        then [c + 1]
      else if ((313 \<le> c \<and> c \<le> 328) \<or> (377 \<le> c \<and> c \<le> 382)) \<and> odd c then [c + 1]
      else if c = 376 then [255]
      else [c])"

definition toLowerCase :: "jsstring \<Rightarrow> jsstring" where
  "toLowerCase s = concat (map lowerUnit s)"

text \<open>White space and line terminators: what \<open>trim\<close> strips and \<open>\s\<close> matches.\<close>

definition isWhiteSpace :: "nat \<Rightarrow> bool" where
  "isWhiteSpace c \<longleftrightarrow>
     (9 \<le> c \<and> c \<le> 13) \<or> c = 32 \<or> c = 160 \<or> c = 5760 \<or> (8192 \<le> c \<and> c \<le> 8202) \<or>
     c = 8232 \<or> c = 8233 \<or> c = 8239 \<or> c = 8287 \<or> c = 12288 \<or> c = 65279"

definition trim :: "jsstring \<Rightarrow> jsstring" where
  "trim s = rev (dropWhile isWhiteSpace (rev (dropWhile isWhiteSpace s)))"

definition startsWith :: "jsstring \<Rightarrow> jsstring \<Rightarrow> bool" where
  "startsWith s p \<longleftrightarrow> take (length p) s = p"

fun includes_js :: "jsstring \<Rightarrow> jsstring \<Rightarrow> bool" where
  "includes_js [] p = (p = [])"
| "includes_js (c # s) p = (startsWith (c # s) p \<or> includes_js s p)"

text \<open>\<open>x || y\<close> on strings that may be undefined: the first that is neither undefined nor empty.\<close>

definition truthy :: "jsstring option \<Rightarrow> bool" where
  "truthy v \<longleftrightarrow> (case v of None \<Rightarrow> False | Some s \<Rightarrow> s \<noteq> [])"

definition orElse :: "jsstring option \<Rightarrow> jsstring option \<Rightarrow> jsstring option" where
  "orElse v w = (if truthy v then v else w)"

definition orEmpty :: "jsstring option \<Rightarrow> jsstring" where
  "orEmpty v = (case v of None \<Rightarrow> [] | Some s \<Rightarrow> s)"

section \<open>Text normalizer and matcher (RSSNewsScraper)\<close>

definition normalizeText :: "jsstring \<Rightarrow> jsstring" where
  "normalizeText text = (if text = [] then [] else trim (toLowerCase text))"

text \<open>The synonym table of \<open>src/scrapers/sites/RSSNewsScraper.js\<close>, in insertion order.\<close>

definition synonyms :: "(jsstring \<times> jsstring list) list" where
  "synonyms =
    [(str ''dolar'', [str ''usd'', str ''amerikan dolari'', str ''dolarin'', str ''dolarda'']),
     (str ''euro'', [str ''eur'', str ''avro'', str ''euronun'']),
     (str ''enflasyon'', [str ''tufe'', str ''tuik'']),
     (str ''faiz'', [str ''politika faizi'', str ''tcmb faizi'']),
     (str ''borsa'', [str ''bist'', str ''bist100'', str ''borsa istanbul'']),
     (str ''altin'', [str ''ons'', str ''gram altin'', str ''ceyrek altin'']),
     (str ''merkez bankasi'', [str ''tcmb'', str ''mb'']),
     (str ''kripto'', [str ''bitcoin'', str ''btc'', str ''ethereum'', str ''eth'']),
     (str ''petrol'', [str ''brent'', str ''varil'']),
     (str ''fenerbahce'', [str ''fener'', str ''fb'', str ''sari lacivert'']),
     (str ''galatasaray'', [str ''gs'', str ''cimbom'', str ''sari kirmizi'']),
     (str ''besiktas'', [str ''bjk'', str ''kartal'']),
     (str ''trabzonspor'', [str ''ts'', str ''bordo mavi'']),
     (str ''yapay zeka'', [str ''ai'', str ''chatgpt'', str ''gpt''])]"

text \<open>\<open>[...new Set(xs)]\<close>: the first occurrence of every element, in order.\<close>

fun uniq :: "'a list \<Rightarrow> 'a list \<Rightarrow> 'a list" where
  "uniq seen [] = []"
| "uniq seen (x # xs) = (if x \<in> set seen then uniq seen xs else x # uniq (x # seen) xs)"

definition getSynonyms :: "jsstring \<Rightarrow> jsstring list" where
  "getSynonyms keyword =
     (let normalizedKeyword = normalizeText keyword in
      uniq [] (normalizedKeyword #
        concat (map (\<lambda>(key, vals).
                  if key = normalizedKeyword \<or> list_ex (\<lambda>v. v = normalizedKeyword) vals
                  then key # vals else [])
                synonyms)))"

subsection \<open>The two regular expressions\<close>

text \<open>
  Both patterns are built from a literal (\<open>escapeRegex\<close> escapes every metacharacter) between
  word boundaries. Without the \<open>u\<close> flag \<open>\w\<close> is \<open>[A-Za-z0-9_]\<close>, also under \<open>i\<close>, and
  a literal matches a code unit when both have the same canonical form: the upper-case
  mapping when it is a single code unit and does not send a non-ASCII unit to ASCII.
  As for \<open>lowerUnit\<close>, the mapping is Unicode's on U+0000..U+017F.
\<close>

definition isWordChar :: "nat \<Rightarrow> bool" where
  "isWordChar c \<longleftrightarrow> (48 \<le> c \<and> c \<le> 57) \<or> (65 \<le> c \<and> c \<le> 90) \<or> c = 95 \<or> (97 \<le> c \<and> c \<le> 122)"

definition canonicalize :: "nat \<Rightarrow> nat" where
  "canonicalize c =
     (if 97 \<le> c \<and> c \<le> 122 then c - 32
      else if c = 181 then 924
      else if 224 \<le> c \<and> c \<le> 254 \<and> c \<noteq> 247 then c - 32
      else if c = 255 then 376
      else if ((257 \<le> c \<and> c \<le> 303) \<or> (307 \<le> c \<and> c \<le> 311) \<or> (331 \<le> c \<and> c \<le> 375)) \<and> odd c
        then c - 1
      else if ((314 \<le> c \<and> c \<le> 328) \<or> (378 \<le> c \<and> c \<le> 382)) \<and> even c then c - 1
      else c)"

text \<open>
  The matcher walks the text once. \<open>w\<close> says whether the unit before the current position is
  a word character (false at the start), so \<open>\b\<close> holds where \<open>w\<close> differs from what the next
  unit is (a non-word at the end of the text).
\<close>

definition nextWord :: "jsstring \<Rightarrow> bool" where
  "nextWord s = (case s of [] \<Rightarrow> False | c # _ \<Rightarrow> isWordChar c)"

definition boundary :: "bool \<Rightarrow> jsstring \<Rightarrow> bool" where
  "boundary w s \<longleftrightarrow> w \<noteq> nextWord s"

text \<open>
  \<open>\b\<close> read off the text: between the part before a position and the part after it, the
  assertion holds when exactly one of the unit before and the unit after is a word character,
  the outside of the text counting as a non-word. \<open>lastWord w before\<close> is the walk's flag
  after \<open>before\<close>, starting from \<open>w\<close>.
\<close>

definition wordBoundary :: "jsstring \<Rightarrow> jsstring \<Rightarrow> bool" where
  "wordBoundary before after \<longleftrightarrow>
     (before \<noteq> [] \<and> isWordChar (last before)) \<noteq> (after \<noteq> [] \<and> isWordChar (hd after))"

definition lastWord :: "bool \<Rightarrow> jsstring \<Rightarrow> bool" where
  "lastWord w before = (if before = [] then w else isWordChar (last before))"

text \<open>The literal at the head of the text: what is left after it, and whether its last unit is a word character.\<close>

fun afterLiteral :: "bool \<Rightarrow> jsstring \<Rightarrow> jsstring \<Rightarrow> (bool \<times> jsstring) option" where
  "afterLiteral w [] s = Some (w, s)"
| "afterLiteral w (p # ps) [] = None"
| "afterLiteral w (p # ps) (c # s) =
     (if canonicalize p = canonicalize c then afterLiteral (isWordChar c) ps s else None)"

text \<open>\<open>\b literal \b\<close> at the current position.\<close>

definition wordHere :: "bool \<Rightarrow> jsstring \<Rightarrow> jsstring \<Rightarrow> bool" where
  "wordHere w pattern s \<longleftrightarrow>
     boundary w s \<and>
     (case afterLiteral w pattern s of None \<Rightarrow> False | Some (w', s') \<Rightarrow> boundary w' s')"

fun testFrom :: "bool \<Rightarrow> jsstring \<Rightarrow> jsstring \<Rightarrow> bool" where
  "testFrom w pattern [] = wordHere w pattern []"
| "testFrom w pattern (c # s) = (wordHere w pattern (c # s) \<or> testFrom (isWordChar c) pattern s)"

text \<open>\<open>new RegExp('\\b' + escapeRegex(pattern) + '\\b', 'i').test(s)\<close>\<close>

definition testWord :: "jsstring \<Rightarrow> jsstring \<Rightarrow> bool" where
  "testWord pattern s = testFrom False pattern s"

text \<open>
  One attempt of \<open>\b syn \w* \b\<close> at the current position, giving what is left after the
  match. After the literal, \<open>\w*\<close> takes the whole run of word characters; when the run is
  not empty the position after it is a boundary, and when it is empty the boundary is required
  right after the literal.
\<close>

definition matchEnd :: "bool \<Rightarrow> jsstring \<Rightarrow> jsstring \<Rightarrow> (bool \<times> jsstring) option" where
  "matchEnd w syn s =
     (if boundary w s then
        (case afterLiteral w syn s of
           None \<Rightarrow> None
         | Some (w', s') \<Rightarrow>
             if nextWord s' then Some (True, dropWhile isWordChar s')
             else if boundary w' s' then Some (w', s') else None)
      else None)"

text \<open>
  \<open>s.match(new RegExp(..., 'gi'))\<close>: the matches from left to right, each search starting
  where the last match ended, one unit further after an empty match.
\<close>

function countFrom :: "bool \<Rightarrow> jsstring \<Rightarrow> jsstring \<Rightarrow> nat" where
  "countFrom w syn [] = (case matchEnd w syn [] of None \<Rightarrow> 0 | Some _ \<Rightarrow> 1)"
| "countFrom w syn (c # s) =
     (case matchEnd w syn (c # s) of
        None \<Rightarrow> countFrom (isWordChar c) syn s
      | Some (w', s') \<Rightarrow>
          if length s' < length (c # s) then Suc (countFrom w' syn s')
          else Suc (countFrom (isWordChar c) syn s))"
  by pat_completeness auto
termination
  by (relation "measure (\<lambda>(w, syn, s). length s)") auto

definition suffixes :: "jsstring list" where
  "suffixes = [[], str ''in'', str ''un'', str ''a'', str ''e'', str ''i'', str ''da'', str ''de'',
               str ''dan'', str ''den'', str ''la'', str ''le'', str ''lar'', str ''ler'']"

text \<open>The two nested loops of \<open>matchesKeyword\<close>, returning at the first pattern that matches.\<close>

fun matchSuffixes :: "jsstring \<Rightarrow> jsstring \<Rightarrow> jsstring list \<Rightarrow> bool" where
  "matchSuffixes normalizedText syn [] = False"
| "matchSuffixes normalizedText syn (suffix # rest) =
     (if testWord (syn @ suffix) normalizedText then True
      else matchSuffixes normalizedText syn rest)"

fun matchSynonyms :: "jsstring \<Rightarrow> jsstring list \<Rightarrow> bool" where
  "matchSynonyms normalizedText [] = False"
| "matchSynonyms normalizedText (syn # rest) =
     (if matchSuffixes normalizedText syn suffixes then True
      else matchSynonyms normalizedText rest)"

definition matchesKeyword :: "jsstring \<Rightarrow> jsstring \<Rightarrow> bool" where
  "matchesKeyword text keyword =
     (if text = [] \<or> keyword = [] then False
      else matchSynonyms (normalizeText text) (getSynonyms keyword))"

definition countKeywordOccurrences :: "jsstring \<Rightarrow> jsstring \<Rightarrow> nat" where
  "countKeywordOccurrences text keyword =
     (if text = [] \<or> keyword = [] then 0
      else foldl (\<lambda>count syn. count + countFrom False syn (normalizeText text)) 0 (getSynonyms keyword))"

section \<open>Content validator\<close>

text \<open>
  An entry as the feed parser hands it over. A property the entry does not have reads
  as undefined: \<open>None\<close>. The media, thumbnail, enclosure and embedded-HTML fields are
  read by \<open>extractImageUrl\<close> alone; \<open>item_image\<close> is what it returns for the entry.
\<close>

record feed_item =
  item_title :: "jsstring option"
  item_contentSnippet :: "jsstring option"
  item_content :: "jsstring option"
  item_summary :: "jsstring option"
  item_link :: "jsstring option"
  item_pubDate :: "jsstring option"
  item_image :: "jsstring option"

definition spamKeywords :: "jsstring list" where
  "spamKeywords = [str ''casino'', str ''bahis'', str ''kumar'', str ''sex'', str ''porno'', str ''xxx'']"

text \<open>\<open>isValidNews\<close> of \<open>src/scrapers/sites/RSSNewsScraper.js\<close> (lines 174-186).\<close>

definition isValidNews :: "feed_item \<Rightarrow> bool" where
  "isValidNews item =
     (let title = normalizeText (orEmpty (item_title item));
          content = normalizeText (orEmpty (orElse (item_contentSnippet item) (item_content item)));
          combined = title @ str '' '' @ content
      in if list_ex (\<lambda>spam. includes_js combined spam) spamKeywords then False
         else if length title < 15 then False
         else True)"

text \<open>
  The repository holds a second, revised copy of the class (the second file of
  \<open>src/routes/index.js\<close>, lines 27-589). Its \<open>isValidNews\<close> (lines 283-324) adds an upper
  bound on the title, the footer patterns and four more checks; its \<open>detectCategory\<close>
  (lines 196-228) is a classifier that scores the categories.
\<close>

definition invalidPatterns :: "jsstring list" where
  "invalidPatterns =
    [(str ''t'' @ 252 # str ''m haklar'' @ 305 # str '' sakl'' @ 305 # str ''d'' @ 305 # str ''r''),
     str ''all rights reserved'', str ''copyright'', (169 # str '' 20''),
     (str ''gizlilik politikas'' @ [305]),
     (str ''kullan'' @ 305 # str ''m ko'' @ 351 # str ''ullar'' @ [305]),
     (231 # str ''erez politikas'' @ [305]), str ''kvkk'',
     (str ''ki'' @ 351 # str ''isel verilerin korunmas'' @ [305]),
     (str ''ileti'' @ 351 # str ''im formu''), (str ''bize ula'' @ 351 # 305 # str ''n''),
     str ''reklam ver'', (str ''k'' @ 252 # str ''nye''),
     (str ''hakk'' @ 305 # str ''m'' @ 305 # str ''zda''), (str ''site haritas'' @ [305]),
     str ''abone ol'', (str ''b'' @ 252 # str ''lten''), str ''newsletter'',
     (252 # str ''ye giri'' @ 351 # str ''i''), (str ''kay'' @ 305 # str ''t ol''),
     (351 # str ''ifremi unuttum''), str ''ana sayfa'', str ''anasayfa'', str ''kategoriler'',
     str ''etiketler'', (str ''ar'' @ 351 # str ''iv''), str ''son haberler'',
     (str ''pop'' @ 252 # str ''ler haberler''), (str ''en '' @ 231 # str ''ok okunanlar''),
     (str ''reklam alan'' @ [305]), (str ''sponsorlu i'' @ 231 # str ''erik''),
     str ''advertorial'', str ''bizi takip edin'', str ''sosyal medya'',
     (str ''facebook'' @ 39 # str ''ta payla'' @ [351]),
     (str ''twitter'' @ 39 # str ''da payla'' @ [351]),
     (str ''devam'' @ 305 # str ''n'' @ 305 # str '' oku''), str ''daha fazla'',
     (str ''t'' @ 305 # str ''klay'' @ 305 # str ''n''), str ''click here'', str ''read more'']"

definition isDigit :: "nat \<Rightarrow> bool" where
  "isDigit c \<longleftrightarrow> 48 \<le> c \<and> c \<le> 57"

definition months :: "jsstring list" where
  "months = [str ''ocak'', (351 # str ''ubat''), str ''mart'', str ''nisan'', (str ''may'' @ 305 # str ''s''),
             str ''haziran'', str ''temmuz'', (str ''a'' @ 287 # str ''ustos''), (str ''eyl'' @ 252 # str ''l''),
             str ''ekim'', (str ''kas'' @ 305 # str ''m''), (str ''aral'' @ 305 # str ''k'')]"

text \<open>
  \<open>/^\d{1,2}\s+(ocak|...|aralik)\s+\d{4}$/i\<close>: one or two digits, white space, a month
  name, white space, four digits, and nothing else.
\<close>

definition dateOnlyRegex :: "jsstring \<Rightarrow> bool" where
  "dateOnlyRegex title =
     (let day = takeWhile isDigit title; r1 = dropWhile isDigit title;
          r2 = dropWhile isWhiteSpace r1
      in (length day = 1 \<or> length day = 2) \<and> takeWhile isWhiteSpace r1 \<noteq> [] \<and>
         list_ex (\<lambda>month.
             case afterLiteral False month r2 of
               None \<Rightarrow> False
             | Some (_, r3) \<Rightarrow>
                 (let year = dropWhile isWhiteSpace r3
                  in takeWhile isWhiteSpace r3 \<noteq> [] \<and> length year = 4 \<and> list_all isDigit year))
           months)"

definition sourceOnlyPatterns :: "jsstring list" where
  "sourceOnlyPatterns =
     [str ''ntv'', (str ''cnn t'' @ 252 # str ''rk''), (str ''h'' @ 252 # str ''rriyet''),
      (str ''s'' @ 246 # str ''zc'' @ [252]), str ''sabah'', (str ''habert'' @ 252 # str ''rk'')]"

text \<open>A unit outside \<open>[\w\s...]\<close>, the class of the garbled-encoding check (the Turkish letters and basic punctuation).\<close>

definition specialChar :: "nat \<Rightarrow> bool" where
  "specialChar c \<longleftrightarrow>
     \<not> (isWordChar c \<or> isWhiteSpace c \<or>
        c \<in> set [287, 252, 351, 305, 246, 231, 286, 220, 350, 304, 214, 199,
                  46, 44, 33, 63, 58, 59, 39, 34, 40, 41, 45])"

text \<open>
  The last check compares a count with \<open>title.length * 0.3\<close>. For the lengths that pass the
  upper bound the product is an integer exactly when the length is a multiple of ten, and
  rounding never crosses an integer, so the comparison is \<open>10 * count > 3 * length\<close>.
\<close>

definition isValidNews_revised :: "feed_item \<Rightarrow> bool" where
  "isValidNews_revised item =
     (let title = normalizeText (orEmpty (item_title item));
          content = normalizeText (orEmpty (orElse (item_contentSnippet item) (item_content item)));
          combined = title @ str '' '' @ content
      in if list_ex (\<lambda>spam. includes_js combined spam) spamKeywords then False
         else if length title < 15 then False
         else if length title > 300 then False
         else if list_ex (\<lambda>pattern. includes_js title pattern) invalidPatterns then False
         else if startsWith title (str ''http'') \<or> startsWith title (str ''www.'') then False
         else if dateOnlyRegex title then False
         else if list_ex (\<lambda>s. title = s) sourceOnlyPatterns then False
         else if 10 * length (filter specialChar title) > 3 * length title then False
         else True)"

section \<open>Category classifier\<close>

subsection \<open>BloombergScraper.detectCategory (src/unnamed/part_000, lines 672-695)\<close>






subsection \<open>RSSNewsScraper.detectCategory (the revised copy, second file of src/routes/index.js, lines 196-228)\<close>

definition categoryKeywords_revised :: "(jsstring \<times> jsstring list) list" where
  "categoryKeywords_revised =
    [(str ''Ekonomi'',
       [str ''dolar'', str ''euro'', str ''borsa'', str ''hisse'', str ''faiz'',
        str ''enflasyon'', str ''tcmb'', (str ''merkez bankas'' @ [305]), str ''kur'',
        (str ''alt'' @ 305 # str ''n''), str ''bitcoin'', str ''kripto'', str ''bist'',
        str ''ekonomi'', str ''finans'', (str ''yat'' @ 305 # str ''r'' @ 305 # str ''m''),
        str ''piyasa'', str ''ihracat'', str ''ithalat'',
        (str ''b'' @ 252 # str ''y'' @ 252 # str ''me''), str ''gsyh'',
        (str ''i'' @ 351 # str ''sizlik''), (str ''b'' @ 252 # str ''t'' @ 231 # str ''e''),
        str ''vergi'', str ''fiyat'']),
     (str ''Spor'',
       [str ''galatasaray'', (str ''fenerbah'' @ 231 # str ''e''),
        (str ''be'' @ 351 # str ''ikta'' @ [351]), str ''trabzonspor'',
        (str ''s'' @ 252 # str ''per lig''), (str ''ma'' @ [231]), str ''gol'', str ''futbol'',
        str ''basketbol'', str ''voleybol'', (351 # str ''ampiyonlar ligi''), str ''uefa'',
        str ''fifa'', (str ''milli tak'' @ 305 # str ''m''), str ''transfer'',
        (str ''teknik direkt'' @ 246 # str ''r''), str ''spor'', str ''stadyum'', str ''derbi'']),
     (str ''Teknoloji'',
       [str ''iphone'', str ''android'', str ''samsung'', str ''apple'', str ''google'',
        str ''yapay zeka'', str ''ai'', str ''robot'',
        (str ''yaz'' @ 305 # str ''l'' @ 305 # str ''m''), str ''uygulama'',
        str ''sosyal medya'', str ''twitter'', str ''instagram'', str ''facebook'',
        str ''teknoloji'', str ''bilgisayar'', str ''telefon'', str ''internet'', str ''5g'',
        str ''siber'']),
     ((str ''Sa'' @ 287 # str ''l'' @ 305 # str ''k''),
       [(str ''sa'' @ 287 # str ''l'' @ 305 # str ''k''), str ''hastane'', str ''doktor'',
        (str ''ila'' @ [231]), str ''tedavi'', (str ''hastal'' @ 305 # str ''k''), str ''covid'',
        str ''grip'', (str ''a'' @ 351 # [305]), str ''kanser'', str ''ameliyat'',
        (str ''t'' @ 305 # str ''p''), str ''hasta'']),
     (str ''Magazin'',
       [(252 # str ''nl'' @ [252]), str ''oyuncu'',
        (351 # str ''ark'' @ 305 # str ''c'' @ [305]), str ''dizi'', str ''film'',
        str ''konser'', (str ''d'' @ 252 # 287 # 252 # str ''n''),
        (str ''bo'' @ 351 # str ''anma''), str ''magazin'',
        (str ''y'' @ 305 # str ''ld'' @ 305 # str ''z''), (str ''sanat'' @ 231 # [305]),
        str ''moda'', (str ''g'' @ 252 # str ''zellik'')]),
     ((str ''D'' @ 252 # str ''nya''),
       [str ''abd'', str ''amerika'', str ''rusya'', (231 # str ''in''), str ''avrupa'',
        str ''almanya'', str ''fransa'', str ''ingiltere'', (str ''sava'' @ [351]), str ''nato'',
        str ''bm'', (str ''birle'' @ 351 # str ''mi'' @ 351 # str '' milletler''),
        (str ''uluslararas'' @ [305]), (str ''d'' @ 252 # str ''nya''),
        (str ''yurtd'' @ 305 # 351 # [305])]),
     ((str ''G'' @ 252 # str ''ndem''),
       [str ''tbmm'', str ''meclis'', str ''bakan'',
        (str ''cumhurba'' @ 351 # str ''kan'' @ [305]), (str ''erdo'' @ 287 # str ''an''),
        (str ''h'' @ 252 # str ''k'' @ 252 # str ''met''), str ''muhalefet'',
        (str ''se'' @ 231 # str ''im''), str ''oy'', str ''parti'', str ''siyaset'',
        str ''yasa'', str ''kanun'']),
     (str ''Son Dakika'',
       [str ''son dakika'', (str ''fla'' @ [351]), str ''acil'', str ''breaking''])]"

definition Genel :: jsstring where
  "Genel = str ''Genel''"

text \<open>The inner loop of \<open>detectCategory\<close>: the score of one category.\<close>

definition categoryScore :: "jsstring \<Rightarrow> jsstring \<Rightarrow> jsstring list \<Rightarrow> nat" where
  "categoryScore title text keywords =
     foldl (\<lambda>score keyword.
              if includes_js text (toLowerCase keyword) then
                (if includes_js (normalizeText title) (toLowerCase keyword) then score + 3 else score + 1)
              else score)
           0 keywords"

definition scores :: "jsstring \<Rightarrow> jsstring \<Rightarrow> (jsstring \<times> nat) list" where
  "scores title description =
     (let text = normalizeText (title @ str '' '' @ description)
      in map (\<lambda>(category, keywords). (category, categoryScore title text keywords)) categoryKeywords_revised)"

text \<open>The second loop: the running maximum and the category that reached it first.\<close>

definition bestOf :: "(jsstring \<times> nat) list \<Rightarrow> nat \<times> jsstring" where
  "bestOf scs =
     foldl (\<lambda>(maxScore, bestCategory) (category, score).
              if score > maxScore then (score, category) else (maxScore, bestCategory))
           (0, Genel) scs"

definition detectCategory_revised :: "jsstring \<Rightarrow> jsstring \<Rightarrow> jsstring" where
  "detectCategory_revised title description =
     (case bestOf (scores title description) of
        (maxScore, bestCategory) \<Rightarrow> if maxScore \<ge> 2 then bestCategory else Genel)"

section \<open>Feed fetcher\<close>

text \<open>The canonical item. \<open>url\<close> is null when the entry has no link; \<open>publishedAt\<close> is
  the date in milliseconds, \<open>None\<close> for an invalid date.\<close>

record news =
  title :: jsstring
  description :: jsstring
  url :: "jsstring option"
  imageUrl :: "jsstring option"
  publishedAt :: "int option"
  source :: jsstring
  category :: jsstring
  feedKey :: jsstring

record feed_info =
  f_url :: jsstring
  f_category :: jsstring
  f_source :: jsstring

definition feed :: "jsstring \<Rightarrow> jsstring \<Rightarrow> jsstring \<Rightarrow> jsstring \<Rightarrow> jsstring \<times> feed_info" where
  "feed key u c s = (key, \<lparr>f_url = u, f_category = c, f_source = s\<rparr>)"

text \<open>The registry of \<open>src/scrapers/sites/RSSNewsScraper.js\<close>, in insertion order.\<close>

definition rssFeeds :: "(jsstring \<times> feed_info) list" where
  "rssFeeds =
    [feed (str ''ntv_ekonomi'') (str ''https://www.ntv.com.tr/ekonomi.rss'')
        (str ''Ekonomi'') (str ''NTV''),
     feed (str ''cnn_ekonomi'') (str ''https://www.cnnturk.com/feed/rss/ekonomi/news'')
        (str ''Ekonomi'') (str ''CNN Turk''),
     feed (str ''hurriyet_ekonomi'') (str ''https://www.hurriyet.com.tr/rss/ekonomi'')
        (str ''Ekonomi'') (str ''Hurriyet''),
     feed (str ''sozcu_ekonomi'') (str ''https://www.sozcu.com.tr/feeds-rss-category-ekonomi'')
        (str ''Ekonomi'') (str ''Sozcu''),
     feed (str ''haberturk_ekonomi'') (str ''https://www.haberturk.com/rss/ekonomi.xml'')
        (str ''Ekonomi'') (str ''Haberturk''),
     feed (str ''sabah_ekonomi'') (str ''https://www.sabah.com.tr/rss/ekonomi.xml'')
        (str ''Ekonomi'') (str ''Sabah''),
     feed (str ''yenisafak_ekonomi'') (str ''https://www.yenisafak.com/rss?xml=ekonomi'')
        (str ''Ekonomi'') (str ''Yeni Safak''),
     feed (str ''star_ekonomi'') (str ''https://www.star.com.tr/rss/ekonomi.xml'')
        (str ''Ekonomi'') (str ''Star''),
     feed (str ''dunya_ekonomi'') (str ''https://www.dunya.com/rss'')
        (str ''Ekonomi'') (str ''Dunya Gazetesi''),
     feed (str ''bloomberght'') (str ''https://www.bloomberght.com/rss'')
        (str ''Ekonomi'') (str ''BloombergHT''),
     feed (str ''paraanaliz'') (str ''https://www.paraanaliz.com/feed/'')
        (str ''Ekonomi'') (str ''Para Analiz''),
     feed (str ''bigpara'') (str ''https://bigpara.hurriyet.com.tr/rss/'')
        (str ''Ekonomi'') (str ''Bigpara''),
     feed (str ''investing_tr'') (str ''https://tr.investing.com/rss/news.rss'')
        (str ''Ekonomi'') (str ''Investing.com TR''),
     feed (str ''ntv_gundem'') (str ''https://www.ntv.com.tr/turkiye.rss'')
        (str ''Gundem'') (str ''NTV''),
     feed (str ''cnn_gundem'') (str ''https://www.cnnturk.com/feed/rss/turkiye/news'')
        (str ''Gundem'') (str ''CNN Turk''),
     feed (str ''hurriyet_gundem'') (str ''https://www.hurriyet.com.tr/rss/gundem'')
        (str ''Gundem'') (str ''Hurriyet''),
     feed (str ''sozcu_gundem'') (str ''https://www.sozcu.com.tr/feeds-rss-category-gundem'')
        (str ''Gundem'') (str ''Sozcu''),
     feed (str ''haberturk_gundem'') (str ''https://www.haberturk.com/rss/gundem.xml'')
        (str ''Gundem'') (str ''Haberturk''),
     feed (str ''cumhuriyet'') (str ''https://www.cumhuriyet.com.tr/rss/son_dakika.xml'')
        (str ''Gundem'') (str ''Cumhuriyet''),
     feed (str ''sabah_gundem'') (str ''https://www.sabah.com.tr/rss/gundem.xml'')
        (str ''Gundem'') (str ''Sabah''),
     feed (str ''yenisafak_gundem'') (str ''https://www.yenisafak.com/rss?xml=gundem'')
        (str ''Gundem'') (str ''Yeni Safak''),
     feed (str ''star_gundem'') (str ''https://www.star.com.tr/rss/guncel.xml'')
        (str ''Gundem'') (str ''Star''),
     feed (str ''t24'') (str ''https://t24.com.tr/rss'')
        (str ''Gundem'') (str ''T24''),
     feed (str ''bianet'') (str ''https://bianet.org/rss/bianet'')
        (str ''Gundem'') (str ''Bianet''),
     feed (str ''ntv_dunya'') (str ''https://www.ntv.com.tr/dunya.rss'')
        (str ''Dunya'') (str ''NTV''),
     feed (str ''cnn_dunya'') (str ''https://www.cnnturk.com/feed/rss/dunya/news'')
        (str ''Dunya'') (str ''CNN Turk''),
     feed (str ''hurriyet_dunya'') (str ''https://www.hurriyet.com.tr/rss/dunya'')
        (str ''Dunya'') (str ''Hurriyet''),
     feed (str ''bbc_turkce'') (str ''https://feeds.bbci.co.uk/turkce/rss.xml'')
        (str ''Dunya'') (str ''BBC Turkce''),
     feed (str ''dw_turkce'') (str ''https://rss.dw.com/xml/rss-tur-all'')
        (str ''Dunya'') (str ''DW Turkce''),
     feed (str ''sabah_dunya'') (str ''https://www.sabah.com.tr/rss/dunya.xml'')
        (str ''Dunya'') (str ''Sabah''),
     feed (str ''cnn_spor'') (str ''https://www.cnnturk.com/feed/rss/spor/news'')
        (str ''Spor'') (str ''CNN Turk''),
     feed (str ''hurriyet_spor'') (str ''https://www.hurriyet.com.tr/rss/spor'')
        (str ''Spor'') (str ''Hurriyet''),
     feed (str ''sabah_spor'') (str ''https://www.sabah.com.tr/rss/spor.xml'')
        (str ''Spor'') (str ''Sabah''),
     feed (str ''webtekno'') (str ''https://www.webtekno.com/rss.xml'')
        (str ''Teknoloji'') (str ''Webtekno''),
     feed (str ''shiftdelete'') (str ''https://shiftdelete.net/feed'')
        (str ''Teknoloji'') (str ''ShiftDelete''),
     feed (str ''chip'') (str ''https://www.chip.com.tr/rss'')
        (str ''Teknoloji'') (str ''Chip Online''),
     feed (str ''ntv_teknoloji'') (str ''https://www.ntv.com.tr/teknoloji.rss'')
        (str ''Teknoloji'') (str ''NTV''),
     feed (str ''technopat'') (str ''https://www.technopat.net/feed/'')
        (str ''Teknoloji'') (str ''Technopat''),
     feed (str ''ntv_saglik'') (str ''https://www.ntv.com.tr/saglik.rss'')
        (str ''Saglik'') (str ''NTV''),
     feed (str ''sabah_saglik'') (str ''https://www.sabah.com.tr/rss/saglik.xml'')
        (str ''Saglik'') (str ''Sabah''),
     feed (str ''hurriyet_magazin'') (str ''https://www.hurriyet.com.tr/rss/magazin'')
        (str ''Magazin'') (str ''Hurriyet''),
     feed (str ''sozcu_magazin'') (str ''https://www.sozcu.com.tr/feeds-rss-category-magazin'')
        (str ''Magazin'') (str ''Sozcu''),
     feed (str ''ntv_yasam'') (str ''https://www.ntv.com.tr/yasam.rss'')
        (str ''Magazin'') (str ''NTV''),
     feed (str ''sabah_magazin'') (str ''https://www.sabah.com.tr/rss/magazin.xml'')
        (str ''Magazin'') (str ''Sabah''),
     feed (str ''cnn_sondakika'') (str ''https://www.cnnturk.com/feed/rss/all/news'')
        (str ''Son Dakika'') (str ''CNN Turk''),
     feed (str ''ntv_sondakika'') (str ''https://www.ntv.com.tr/son-dakika.rss'')
        (str ''Son Dakika'') (str ''NTV''),
     feed (str ''sabah_sondakika'') (str ''https://www.sabah.com.tr/rss/sondakika.xml'')
        (str ''Son Dakika'') (str ''Sabah'')]"

text \<open>
  What the run-time and the network answer: the feed parser (\<open>None\<close> when it throws), the
  article page's image, \<open>new URL(url, origin).href\<close> (\<open>None\<close> when it throws), the date
  parser (\<open>None\<close> for an invalid date), \<open>encodeURIComponent\<close>, the order that sorting
  with a random comparator leaves, and the clock: \<open>feedClock k i\<close> when entry \<open>i\<close> of the
  feed fetched from \<open>k\<close> is converted, \<open>searchClock i\<close> when result \<open>i\<close> is scored.
\<close>

record runtime =
  parseURL :: "jsstring \<Rightarrow> feed_item list option"
  fetchArticleImage :: "jsstring \<Rightarrow> jsstring option"
  resolveURL :: "jsstring \<Rightarrow> jsstring \<Rightarrow> jsstring option"
  parseDate :: "jsstring \<Rightarrow> int option"
  encodeURIComponent :: "jsstring \<Rightarrow> jsstring"
  shuffle :: "(jsstring \<times> feed_info) list \<Rightarrow> (jsstring \<times> feed_info) list"
  feedClock :: "jsstring \<Rightarrow> nat \<Rightarrow> int"
  searchClock :: "nat \<Rightarrow> int"

definition fixUrl :: "runtime \<Rightarrow> jsstring option \<Rightarrow> jsstring \<Rightarrow> jsstring option" where
  "fixUrl rt u feedUrl =
     (case u of
        None \<Rightarrow> None
      | Some l \<Rightarrow>
          if l = [] then None
          else if startsWith l (str ''http://'') \<or> startsWith l (str ''https://'') then Some l
          else (case resolveURL rt l feedUrl of Some href \<Rightarrow> Some href | None \<Rightarrow> Some l))"

definition toDate :: "runtime \<Rightarrow> jsstring option \<Rightarrow> int \<Rightarrow> int option" where
  "toDate rt pubDate now = (if truthy pubDate then parseDate rt (orEmpty pubDate) else Some now)"

text \<open>\<open>item.title || ''\<close> and \<open>item.contentSnippet || item.content || item.summary || ''\<close>\<close>

definition entryTitle :: "feed_item \<Rightarrow> jsstring" where
  "entryTitle item = orEmpty (item_title item)"

definition entryDescription :: "feed_item \<Rightarrow> jsstring" where
  "entryDescription item =
     orEmpty (orElse (orElse (item_contentSnippet item) (item_content item)) (item_summary item))"

text \<open>The test of \<open>scrapeFromFeed\<close> that lets an entry through (the two \<open>continue\<close>s).\<close>

definition keeps :: "jsstring option \<Rightarrow> feed_item \<Rightarrow> bool" where
  "keeps keyword item =
     (if \<not> isValidNews item then False
      else if truthy keyword then
        (let titleMatch = matchesKeyword (entryTitle item) (orEmpty keyword);
             descCount = countKeywordOccurrences (entryDescription item) (orEmpty keyword)
         in if \<not> titleMatch \<and> descCount < 2 then False else True)
      else True)"

definition toNews :: "runtime \<Rightarrow> jsstring \<Rightarrow> feed_info \<Rightarrow> nat \<Rightarrow> feed_item \<Rightarrow> news" where
  "toNews rt key info i item =
     (let itemUrl = fixUrl rt (item_link item) (f_url info);
          image = (if \<not> truthy (item_image item) \<and> truthy itemUrl
                   then fetchArticleImage rt (orEmpty itemUrl) else item_image item)
      in \<lparr>title = trim (entryTitle item), description = trim (take 500 (entryDescription item)),
          url = itemUrl, imageUrl = image,
          publishedAt = toDate rt (item_pubDate item) (feedClock rt (f_url info) i),
          source = f_source info, category = f_category info, feedKey = key\<rparr>)"

text \<open>A feed that cannot be fetched or parsed contributes nothing.\<close>

definition scrapeFromFeed :: "runtime \<Rightarrow> jsstring \<Rightarrow> feed_info \<Rightarrow> jsstring option \<Rightarrow> news list" where
  "scrapeFromFeed rt key info keyword =
     (case parseURL rt (f_url info) of
        None \<Rightarrow> []
      | Some items \<Rightarrow>
          map (\<lambda>(i, item). toNews rt key info i item)
              (filter (\<lambda>(i, item). keeps keyword item) (enumerate 0 items)))"

section \<open>Aggregation orchestrator\<close>

text \<open>The seen-set filter that ends \<open>searchGoogleNews\<close>, \<open>liveSearch\<close> and \<open>scrapeAllStaggered\<close>.\<close>

fun uniqueByUrl :: "jsstring list \<Rightarrow> 'a news_scheme list \<Rightarrow> 'a news_scheme list" where
  "uniqueByUrl seen [] = []"
| "uniqueByUrl seen (item # rest) =
     (if \<not> truthy (url item) \<or> orEmpty (url item) \<in> set seen then uniqueByUrl seen rest
      else item # uniqueByUrl (orEmpty (url item) # seen) rest)"

text \<open>\<open>title.split(' - ')\<close>; \<open>cur\<close> holds the current part, reversed.\<close>

fun splitDash :: "jsstring \<Rightarrow> jsstring \<Rightarrow> jsstring list" where
  "splitDash cur [] = [rev cur]"
| "splitDash cur (c # s) =
     (if c = 32 \<and> startsWith s (str ''- '') then rev cur # splitDash [] (drop 2 s)
      else splitDash (c # cur) s)"

fun joinDash :: "jsstring list \<Rightarrow> jsstring" where
  "joinDash [] = []"
| "joinDash [p] = p"
| "joinDash (p # q # ps) = p @ str '' - '' @ joinDash (q # ps)"

definition googleNewsUrl :: "runtime \<Rightarrow> jsstring \<Rightarrow> jsstring" where
  "googleNewsUrl rt term =
     str ''https://news.google.com/rss/search?q='' @ encodeURIComponent rt term @ str ''&hl=tr&gl=TR&ceid=TR:tr''"

definition GoogleNews :: jsstring where
  "GoogleNews = str ''Google News''"

definition googleItem :: "runtime \<Rightarrow> jsstring \<Rightarrow> nat \<Rightarrow> feed_item \<Rightarrow> news" where
  "googleItem rt feedUrl i item =
     (let t = orEmpty (item_title item);
          d = orEmpty (orElse (item_contentSnippet item) (item_content item));
          titleParts = splitDash [] t;
          src = (if length titleParts > 1 then trim (last titleParts) else GoogleNews);
          clean = trim (joinDash (butlast titleParts))
      in \<lparr>title = (if clean = [] then t else clean), description = trim (take 500 d),
          url = item_link item, imageUrl = item_image item,
          publishedAt = toDate rt (item_pubDate item) (feedClock rt feedUrl i),
          source = src, category = GoogleNews, feedKey = str ''google_news''\<rparr>)"

definition googleValid :: "feed_item \<Rightarrow> bool" where
  "googleValid item =
     isValidNews \<lparr>item_title = Some (orEmpty (item_title item)),
                  item_contentSnippet =
                    Some (orEmpty (orElse (item_contentSnippet item) (item_content item))),
                  item_content = None, item_summary = None, item_link = None,
                  item_pubDate = None, item_image = None\<rparr>"

definition searchGoogleNews :: "runtime \<Rightarrow> jsstring \<Rightarrow> news list" where
  "searchGoogleNews rt keyword =
     (let searchTerms = take 3 (getSynonyms keyword);
          results = concat (map (\<lambda>term.
                       case parseURL rt (googleNewsUrl rt term) of
                         None \<Rightarrow> []
                       | Some items \<Rightarrow>
                           map (\<lambda>(i, item). googleItem rt (googleNewsUrl rt term) i item)
                               (filter (\<lambda>(i, item). googleValid item) (enumerate 0 (take 15 items))))
                     searchTerms)
      in uniqueByUrl [] results)"

record options =
  opt_category :: "jsstring option"
  limit :: int
  maxSources :: int
  includeGoogleNews :: bool

definition defaultOptions :: options where
  "defaultOptions = \<lparr>opt_category = None, limit = 100, maxSources = 25, includeGoogleNews = True\<rparr>"

text \<open>\<open>xs.slice(0, n)\<close>: a negative \<open>n\<close> counts from the end.\<close>

definition slice0 :: "int \<Rightarrow> 'a list \<Rightarrow> 'a list" where
  "slice0 n xs = (if n < 0 then take (nat (int (length xs) + n)) xs else take (nat n) xs)"

text \<open>The batches of five, stopping once \<open>limit\<close> results are in.\<close>

function batches :: "runtime \<Rightarrow> jsstring \<Rightarrow> int \<Rightarrow> (jsstring \<times> feed_info) list \<Rightarrow> news list \<Rightarrow> news list" where
  "batches rt keyword lim feeds allResults =
     (if feeds = [] then allResults
      else
        (let chunk = take 5 feeds;
             results = map (\<lambda>(key, info). scrapeFromFeed rt key info (Some keyword)) chunk;
             allResults' = allResults @ concat results
         in if int (length allResults') \<ge> lim then allResults'
            else batches rt keyword lim (drop 5 feeds) allResults'))"
  by pat_completeness auto
termination
  by (relation "measure (\<lambda>(rt, keyword, lim, feeds, allResults). length feeds)") auto

declare batches.simps [simp del]

record scored = news +
  relevanceScore :: int

text \<open>
  The age is \<open>(Date.now() - publishedAt) / 3600000\<close> hours. Both times are whole
  milliseconds, so the three comparisons are comparisons of the difference with one, six and
  twenty-four hours of milliseconds; with an invalid date every comparison is false.
\<close>

definition recencyBonus :: "int \<Rightarrow> int option \<Rightarrow> int" where
  "recencyBonus now published =
     (case published of
        None \<Rightarrow> 0
      | Some t \<Rightarrow>
          if now - t < 3600000 then 20
          else if now - t < 6 * 3600000 then 10
          else if now - t < 24 * 3600000 then 5
          else 0)"

definition score :: "jsstring \<Rightarrow> int \<Rightarrow> news \<Rightarrow> int" where
  "score keyword now item =
     int (countKeywordOccurrences (title item) keyword) * 10 +
     int (countKeywordOccurrences (description item) keyword) * 2 +
     (if category item = GoogleNews then 5 else 0) +
     recencyBonus now (publishedAt item)"

text \<open>\<open>{ ...item, relevanceScore: score }\<close>\<close>

definition withScore :: "news \<Rightarrow> int \<Rightarrow> scored" where
  "withScore item s =
     \<lparr>title = title item, description = description item, url = url item,
      imageUrl = imageUrl item, publishedAt = publishedAt item, source = source item,
      category = category item, feedKey = feedKey item, relevanceScore = s\<rparr>"

definition scoreAll :: "runtime \<Rightarrow> jsstring \<Rightarrow> news list \<Rightarrow> scored list" where
  "scoreAll rt keyword allResults =
     map (\<lambda>(i, item). withScore item (score keyword (searchClock rt i) item)) (enumerate 0 allResults)"

text \<open>\<open>Array.prototype.sort\<close> is stable; the comparator orders by descending score.\<close>

definition sortByScore :: "scored list \<Rightarrow> scored list" where
  "sortByScore xs = sort_key (\<lambda>item. - relevanceScore item) xs"

text \<open>The tail of \<open>liveSearch\<close>: score, sort, deduplicate (\<open>unique\<close>), truncate.\<close>

definition unique :: "runtime \<Rightarrow> jsstring \<Rightarrow> news list \<Rightarrow> scored list" where
  "unique rt keyword allResults = uniqueByUrl [] (sortByScore (scoreAll rt keyword allResults))"

definition rank :: "runtime \<Rightarrow> jsstring \<Rightarrow> int \<Rightarrow> news list \<Rightarrow> scored list" where
  "rank rt keyword lim allResults = slice0 lim (unique rt keyword allResults)"

definition gather :: "runtime \<Rightarrow> jsstring \<Rightarrow> options \<Rightarrow> news list" where
  "gather rt keyword opts =
     (let feeds = (if truthy (opt_category opts)
                   then filter (\<lambda>(key, info). f_category info = orEmpty (opt_category opts)) rssFeeds
                   else rssFeeds);
          feeds' = slice0 (maxSources opts) (shuffle rt feeds);
          allResults = batches rt keyword (limit opts) feeds' []
      in if includeGoogleNews opts then allResults @ searchGoogleNews rt keyword else allResults)"

datatype error = InvalidArgument

definition liveSearch :: "runtime \<Rightarrow> jsstring \<Rightarrow> options \<Rightarrow> error + scored list" where
  "liveSearch rt keyword opts =
     (if keyword = [] \<or> length keyword < 2 then Inl InvalidArgument
      else Inr (rank rt keyword (limit opts) (gather rt keyword opts)))"

section \<open>Persistence (ScraperService.saveNews)\<close>

text \<open>
  What \<open>saveNews\<close> reads of an item: nine properties, undefined (\<open>None\<close>) when the item
  does not have them. The items it is handed have passed the seen-set filter, so \<open>url\<close> is a
  string.
\<close>

record newsItem =
  in_title :: "jsstring option"
  in_summary :: "jsstring option"
  in_url :: jsstring
  in_imageUrl :: "jsstring option"
  in_category :: "jsstring option"
  in_source :: "jsstring option"
  in_keywords :: "jsstring list option"
  in_publishedAt :: "int option"
  in_scrapedAt :: "int option"

text \<open>
  The \<open>$set\<close> part of the update document, and the stored document: the fields that
  \<open>$set\<close> names and the two timestamps of the schema.
\<close>

record set_doc =
  d_title :: "jsstring option"
  d_summary :: "jsstring option"
  d_url :: jsstring
  d_imageUrl :: "jsstring option"
  d_category :: "jsstring option"
  d_source :: "jsstring option"
  d_keywords :: "jsstring list option"
  d_publishedAt :: "int option"
  d_scrapedAt :: int
  d_isActive :: bool

record stored = set_doc +
  createdAt :: int
  updatedAt :: int

type_synonym store = "jsstring \<rightharpoonup> stored"

record db_error =
  code :: "int option"
  message :: jsstring

text \<open>
  The persistence handle:
  \<open>News.updateOne({url}, {$set, $setOnInsert: {createdAt}}, {upsert: true})\<close> answers
  with \<open>upsertedCount\<close> or throws, and leaves a store behind. Its arguments are the store,
  \<open>$set\<close>, the \<open>createdAt\<close> of \<open>$setOnInsert\<close>, and the time at which the library reads
  the clock.
\<close>

type_synonym handle = "store \<Rightarrow> set_doc \<Rightarrow> int \<Rightarrow> int \<Rightarrow> (db_error + nat) \<times> store"

record result =
  saved :: nat
  duplicates :: nat
  errors :: "(jsstring \<times> jsstring) list"

text \<open>The update document for one item; \<open>now\<close> is \<open>new Date()\<close> where the item has no \<open>scrapedAt\<close>.\<close>

definition setOf :: "newsItem \<Rightarrow> int \<Rightarrow> set_doc" where
  "setOf item now =
     \<lparr>d_title = in_title item, d_summary = in_summary item, d_url = in_url item,
      d_imageUrl = in_imageUrl item, d_category = in_category item, d_source = in_source item,
      d_keywords = in_keywords item, d_publishedAt = in_publishedAt item,
      d_scrapedAt = (case in_scrapedAt item of Some t \<Rightarrow> t | None \<Rightarrow> now),
      d_isActive = True\<rparr>"

text \<open>One turn of the loop: the \<open>try\<close> with its two counters, the \<open>catch\<close> with its two branches.\<close>

definition saveOne :: "handle \<Rightarrow> int \<Rightarrow> int \<Rightarrow> int \<Rightarrow> result \<times> store \<Rightarrow> newsItem \<Rightarrow> result \<times> store" where
  "saveOne upd now1 now2 now3 st item =
     (case st of (res, db) \<Rightarrow>
        (case upd db (setOf item now1) now2 now3 of
           (Inr upsertedCount, db') \<Rightarrow>
             if upsertedCount > 0 then (res\<lparr>saved := saved res + 1\<rparr>, db')
             else (res\<lparr>duplicates := duplicates res + 1\<rparr>, db')
         | (Inl err, db') \<Rightarrow>
             if code err = Some 11000 then (res\<lparr>duplicates := duplicates res + 1\<rparr>, db')
             else (res\<lparr>errors := errors res @ [(in_url item, message err)]\<rparr>, db')))"

text \<open>
  The loop. \<open>clock\<close> gives the time at the instants of the run, three a turn: when the
  update document is built, when \<open>$setOnInsert\<close> is built, and when the library reads the
  clock.
\<close>

fun saveLoop :: "handle \<Rightarrow> (nat \<Rightarrow> int) \<Rightarrow> nat \<Rightarrow> result \<times> store \<Rightarrow> newsItem list \<Rightarrow> result \<times> store" where
  "saveLoop upd clock k st [] = st"
| "saveLoop upd clock k st (item # rest) =
     saveLoop upd clock (k + 3)
       (saveOne upd (clock k) (clock (k + 1)) (clock (k + 2)) st item) rest"

definition saveNews :: "handle \<Rightarrow> (nat \<Rightarrow> int) \<Rightarrow> store \<Rightarrow> newsItem list \<Rightarrow> result \<times> store" where
  "saveNews upd clock db newsArray =
     (let result = \<lparr>saved = 0, duplicates = 0, errors = []\<rparr>
      in if newsArray = [] then (result, db)
         else saveLoop upd clock 0 (result, db) newsArray)"

subsection \<open>The upsert of the storage engine\<close>

text \<open>
  \<open>News.updateOne(filter, update, {upsert: true})\<close> is a call into the Mongoose library,
  which is no file of the repository. The definitions of this subsection model it from the
  contract of the specification (if no document has the url, insert one with \<open>createdAt\<close>;
  if one has, overwrite the fields of \<open>$set\<close> and leave \<open>createdAt\<close> untouched), under the
  News schema, which is in the repository (\<open>src/unnamed/part_004\<close>): its setters, its
  defaults, and \<open>timestamps: true\<close>, by which every update writes \<open>updatedAt\<close>.
\<close>

text \<open>
  Modelled from the spec: what the library makes of the filter and of \<open>$set\<close> before it
  sends them, by the setters that the schema declares: \<open>trim\<close> on title, summary, url,
  imageUrl, category, source and every keyword, \<open>lowercase\<close> on category, source and every
  keyword. The two setters commute.
\<close>

definition castUpdate :: "set_doc \<Rightarrow> set_doc" where
  "castUpdate upd =
     \<lparr>d_title = map_option trim (d_title upd), d_summary = map_option trim (d_summary upd),
      d_url = trim (d_url upd), d_imageUrl = map_option trim (d_imageUrl upd),
      d_category = map_option (\<lambda>v. trim (toLowerCase v)) (d_category upd),
      d_source = map_option (\<lambda>v. trim (toLowerCase v)) (d_source upd),
      d_keywords = map_option (map (\<lambda>v. trim (toLowerCase v))) (d_keywords upd),
      d_publishedAt = d_publishedAt upd, d_scrapedAt = d_scrapedAt upd,
      d_isActive = d_isActive upd\<rparr>"

text \<open>
  Modelled from the spec: the document that an insert starts from, which is the url of the
  filter, the defaults of the schema
  (\<open>''\<close> for summary and imageUrl, \<open>'genel'\<close> for category, the empty array for keywords,
  \<open>true\<close> for isActive), and \<open>createdAt\<close>. Title, source and publishedAt have no default;
  \<open>scrapedAt\<close> and \<open>updatedAt\<close> are overwritten by the \<open>$set\<close> that follows.
\<close>

definition fresh :: "jsstring \<Rightarrow> int \<Rightarrow> stored" where
  "fresh u created =
     \<lparr>d_title = None, d_summary = Some [], d_url = u, d_imageUrl = Some [],
      d_category = Some (str ''genel''), d_source = None, d_keywords = Some [],
      d_publishedAt = None, d_scrapedAt = created, d_isActive = True,
      createdAt = created, updatedAt = created\<rparr>"

text \<open>
  Modelled from the spec: one property of \<open>$set\<close>. A property that is undefined is dropped
  from the update, so the field keeps its value.
\<close>

definition orOld :: "'a option \<Rightarrow> 'a option \<Rightarrow> 'a option" where
  "orOld new old = (case new of None \<Rightarrow> old | Some v \<Rightarrow> Some v)"

text \<open>
  Modelled from the spec: \<open>$set\<close> on a document. The url, \<open>scrapedAt\<close> and \<open>isActive\<close>
  are always in \<open>$set\<close>; \<open>updatedAt\<close> is set by the \<open>timestamps\<close> option of the schema;
  \<open>createdAt\<close> is left as it is.
\<close>

definition applySet :: "set_doc \<Rightarrow> int \<Rightarrow> stored \<Rightarrow> stored" where
  "applySet upd now old =
     \<lparr>d_title = orOld (d_title upd) (d_title old), d_summary = orOld (d_summary upd) (d_summary old),
      d_url = d_url upd, d_imageUrl = orOld (d_imageUrl upd) (d_imageUrl old),
      d_category = orOld (d_category upd) (d_category old),
      d_source = orOld (d_source upd) (d_source old),
      d_keywords = orOld (d_keywords upd) (d_keywords old),
      d_publishedAt = orOld (d_publishedAt upd) (d_publishedAt old),
      d_scrapedAt = d_scrapedAt upd, d_isActive = d_isActive upd,
      createdAt = createdAt old, updatedAt = now\<rparr>"

text \<open>
  Modelled from the spec: the upsert of the storage engine. If no document has the url of the
  filter, one is inserted, with the \<open>createdAt\<close> of \<open>$setOnInsert\<close>, and the answer is
  \<open>upsertedCount\<close> one; if one has, \<open>$set\<close> is applied to it and the answer is zero.
  The validators of the schema are left out (an update runs none), and so are the fields
  \<open>content\<close> and \<open>author\<close>, which \<open>saveNews\<close> never writes.
\<close>

definition updateOne :: handle where
  "updateOne db upd created now =
     (let c = castUpdate upd
      in case db (d_url c) of
           None \<Rightarrow> (Inr 1, db(d_url c \<mapsto> applySet c now (fresh (d_url c) created)))
         | Some old \<Rightarrow> (Inr 0, db(d_url c \<mapsto> applySet c now old)))"

subsection \<open>Notions for comparing two runs\<close>

text \<open>The key under which an item is stored: its url after the schema's \<open>trim\<close>.\<close>

definition urlKey :: "newsItem \<Rightarrow> jsstring" where
  "urlKey item = trim (in_url item)"

text \<open>The writes of a run, in order: the cast update document and the two times of each turn.\<close>

fun writes :: "(nat \<Rightarrow> int) \<Rightarrow> nat \<Rightarrow> newsItem list \<Rightarrow> (set_doc \<times> int \<times> int) list" where
  "writes clock k [] = []"
| "writes clock k (item # rest) =
     (castUpdate (setOf item (clock k)), clock (k + 1), clock (k + 2)) # writes clock (k + 3) rest"

text \<open>What one write does to the document under its key, and what a list of writes does.\<close>

definition applyWrite :: "stored option \<Rightarrow> set_doc \<times> int \<times> int \<Rightarrow> stored option" where
  "applyWrite old w =
     (case w of (c, created, now) \<Rightarrow>
        Some (applySet c now (case old of None \<Rightarrow> fresh (d_url c) created | Some d \<Rightarrow> d)))"

definition applyAll :: "(set_doc \<times> int \<times> int) list \<Rightarrow> stored \<Rightarrow> stored" where
  "applyAll ws d = foldl (\<lambda>d w. applySet (fst w) (snd (snd w)) d) d ws"

definition orLast :: "'a option list \<Rightarrow> 'a option \<Rightarrow> 'a option" where
  "orLast ns old = foldl (\<lambda>old new. orOld new old) old ns"

text \<open>The stored document with \<open>scrapedAt\<close> blanked, and with both run-dependent times blanked.\<close>

definition exceptScrapedAt :: "stored \<Rightarrow> stored" where
  "exceptScrapedAt d = d\<lparr>d_scrapedAt := 0\<rparr>"

definition exceptTimes :: "stored \<Rightarrow> stored" where
  "exceptTimes d = d\<lparr>d_scrapedAt := 0, updatedAt := 0\<rparr>"

text \<open>
  What the stored document shows of the last write for its url: the item written at the time
  \<open>t\<close>, the library reading the clock at \<open>now\<close>. Every property that the item defines is
  stored, after the setters of the schema.
\<close>

definition written :: "newsItem \<Rightarrow> int \<Rightarrow> int \<Rightarrow> stored \<Rightarrow> bool" where
  "written item t now d \<longleftrightarrow>
     d_url d = trim (in_url item) \<and> d_isActive d \<and> updatedAt d = now \<and>
     d_scrapedAt d = (case in_scrapedAt item of Some s \<Rightarrow> s | None \<Rightarrow> t) \<and>
     (\<forall>v. in_title item = Some v \<longrightarrow> d_title d = Some (trim v)) \<and>
     (\<forall>v. in_summary item = Some v \<longrightarrow> d_summary d = Some (trim v)) \<and>
     (\<forall>v. in_imageUrl item = Some v \<longrightarrow> d_imageUrl d = Some (trim v)) \<and>
     (\<forall>v. in_category item = Some v \<longrightarrow> d_category d = Some (trim (toLowerCase v))) \<and>
     (\<forall>v. in_source item = Some v \<longrightarrow> d_source d = Some (trim (toLowerCase v))) \<and>
     (\<forall>v. in_keywords item = Some v \<longrightarrow> d_keywords d = Some (map (\<lambda>k. trim (toLowerCase k)) v)) \<and>
     (\<forall>v. in_publishedAt item = Some v \<longrightarrow> d_publishedAt d = Some v)"

section \<open>Concrete inputs\<close>

text \<open>A run-time with no network: every fetch fails, the clock stands at zero.\<close>

definition offline :: runtime where
  "offline = \<lparr>parseURL = (\<lambda>u. None), fetchArticleImage = (\<lambda>u. None), resolveURL = (\<lambda>u b. None),
              parseDate = (\<lambda>d. None), encodeURIComponent = (\<lambda>t. t), shuffle = (\<lambda>fs. fs),
              feedClock = (\<lambda>k i. 0), searchClock = (\<lambda>i. 0)\<rparr>"

definition entry :: "jsstring \<Rightarrow> jsstring \<Rightarrow> feed_item" where
  "entry t d = \<lparr>item_title = Some t, item_contentSnippet = Some d, item_content = None,
               item_summary = None, item_link = None, item_pubDate = None, item_image = None\<rparr>"

text \<open>
  One feed answers, with three entries about the dollar; the first two carry the same link.
  No entry has a date, so each is published when it is converted, at time zero.
\<close>

definition article :: "jsstring \<Rightarrow> jsstring \<Rightarrow> feed_item" where
  "article t l = \<lparr>item_title = Some t, item_contentSnippet = None, item_content = None,
                 item_summary = None, item_link = Some l, item_pubDate = None, item_image = None\<rparr>"

definition ntvUrl :: jsstring where
  "ntvUrl = str ''https://www.ntv.com.tr/ekonomi.rss''"

definition linkA :: jsstring where
  "linkA = str ''https://example.com/a''"

definition linkB :: jsstring where
  "linkB = str ''https://example.com/b''"

definition dollarFeed :: "feed_item list" where
  "dollarFeed =
     [article (str ''Dolar bugun yatay seyretti'') linkA,
      article (str ''Dolar yukselirken dolar endeksi geriledi'') linkA,
      article (str ''Dolar, dolar ve yine dolar gunu'') linkB]"

definition newsroom :: runtime where
  "newsroom = offline\<lparr>parseURL := (\<lambda>u. if u = ntvUrl then Some dollarFeed else None)\<rparr>"

definition dollarNews :: "jsstring \<Rightarrow> jsstring \<Rightarrow> news" where
  "dollarNews t l =
     \<lparr>title = t, description = [], url = Some l, imageUrl = None, publishedAt = Some 0,
      source = str ''NTV'', category = str ''Ekonomi'', feedKey = str ''ntv_ekonomi''\<rparr>"

definition dollarResults :: "news list" where
  "dollarResults =
     [dollarNews (str ''Dolar bugun yatay seyretti'') linkA,
      dollarNews (str ''Dolar yukselirken dolar endeksi geriledi'') linkA,
      dollarNews (str ''Dolar, dolar ve yine dolar gunu'') linkB]"

text \<open>
  A feed of six entries for the keyword filter: they differ in where the keyword occurs, in
  the property that carries the description, and in the validity of the title.
\<close>

definition marketTitle :: jsstring where
  "marketTitle = str ''Piyasalarda son durum''"

definition marketFeed :: "feed_item list" where
  "marketFeed =
     [entry (str ''Dolarin yukselisi durmuyor'') (str ''piyasa ozeti''),
      entry marketTitle (str ''dolar ve dolar kuru''),
      entry marketTitle (str ''dolar yatay''),
      (entry marketTitle [])\<lparr>item_content := Some (str ''Dolar dustu, dolar cikti'')\<rparr>,
      (entry marketTitle [])\<lparr>item_contentSnippet := None, item_summary := Some (str ''USD ve dolar'')\<rparr>,
      entry (str ''Dolar'') (str ''dolar dolar dolar'')]"

definition ntv :: feed_info where
  "ntv = \<lparr>f_url = ntvUrl, f_category = str ''Ekonomi'', f_source = str ''NTV''\<rparr>"

definition marketRoom :: runtime where
  "marketRoom = offline\<lparr>parseURL := (\<lambda>u. if u = ntvUrl then Some marketFeed else None)\<rparr>"

text \<open>Five sources and no search-engine channel, with the default limit and with a limit of one.\<close>

definition fiveSources :: options where
  "fiveSources = \<lparr>opt_category = None, limit = 100, maxSources = 5, includeGoogleNews = False\<rparr>"

definition topOne :: options where
  "topOne = \<lparr>opt_category = None, limit = 1, maxSources = 5, includeGoogleNews = False\<rparr>"

text \<open>
  Three items to save, and a handle that answers the first url with a unique-key violation and
  the second with another failure.
\<close>

definition sample :: "jsstring \<Rightarrow> jsstring \<Rightarrow> newsItem" where
  "sample t u =
     \<lparr>in_title = Some t, in_summary = None, in_url = u, in_imageUrl = None,
      in_category = Some (str ''Ekonomi''), in_source = Some (str ''NTV''), in_keywords = None,
      in_publishedAt = Some 0, in_scrapedAt = None\<rparr>"

definition linkC :: jsstring where
  "linkC = str ''https://example.com/c''"

definition batch :: "newsItem list" where
  "batch = [sample (str ''Dolar bugun yatay seyretti'') linkA,
            sample (str ''Borsa gune yukselisle basladi'') linkB,
            sample (str ''Altin fiyatlari geriledi'') linkC]"

definition flaky :: handle where
  "flaky db upd created now =
     (if d_url upd = linkA
        then (Inl \<lparr>code = Some 11000, message = str ''E11000 duplicate key error''\<rparr>, db)
      else if d_url upd = linkB
        then (Inl \<lparr>code = None, message = str ''connection timed out''\<rparr>, db)
      else updateOne db upd created now)"

text \<open>Two runs over the same batch, the second a hundred instants later.\<close>

definition firstRun :: "result \<times> store" where
  "firstRun = saveNews updateOne (\<lambda>k. int k) Map.empty batch"

definition secondRun :: "result \<times> store" where
  "secondRun = saveNews updateOne (\<lambda>k. 100 + int k) (snd firstRun) batch"

text \<open>The document stored for the first item of the batch, but for its three times.\<close>

definition dollarDoc :: "int \<Rightarrow> int \<Rightarrow> int \<Rightarrow> stored" where
  "dollarDoc scraped created updated =
     \<lparr>d_title = Some (str ''Dolar bugun yatay seyretti''), d_summary = Some [], d_url = linkA,
      d_imageUrl = Some [], d_category = Some (str ''ekonomi''), d_source = Some (str ''ntv''),
      d_keywords = Some [], d_publishedAt = Some 0, d_scrapedAt = scraped, d_isActive = True,
      createdAt = created, updatedAt = updated\<rparr>"

text \<open>
  Three titles for the validator: a copyright footer, a headline, and 301 times the letter a.
\<close>

definition footerTitle :: jsstring where
  "footerTitle = (str ''T'' @ 252 # str ''m haklar'' @ 305 # str '' sakl'' @ 305 # str ''d'' @ 305 # str ''r '' @ 169 # str '' 2024'')"

definition headline :: jsstring where
  "headline = (str ''Merkez Bankas'' @ 305 # str '' faiz karar'' @ 305 # str ''n'' @ 305 # str '' a'' @ 231 # 305 # str ''klad'' @ [305])"

definition longTitle :: jsstring where
  "longTitle = replicate 301 97"

definition ordinary :: jsstring where
  "ordinary = str ''Detaylar haberimizde''"

text \<open>The first batch of the registry.\<close>

definition firstFive :: "(jsstring \<times> feed_info) list" where
  "firstFive =
    [(str ''ntv_ekonomi'', \<lparr>f_url = ntvUrl, f_category = str ''Ekonomi'', f_source = str ''NTV''\<rparr>),
     feed (str ''cnn_ekonomi'') (str ''https://www.cnnturk.com/feed/rss/ekonomi/news'')
        (str ''Ekonomi'') (str ''CNN Turk''),
     feed (str ''hurriyet_ekonomi'') (str ''https://www.hurriyet.com.tr/rss/ekonomi'')
        (str ''Ekonomi'') (str ''Hurriyet''),
     feed (str ''sozcu_ekonomi'') (str ''https://www.sozcu.com.tr/feeds-rss-category-ekonomi'')
        (str ''Ekonomi'') (str ''Sozcu''),
     feed (str ''haberturk_ekonomi'') (str ''https://www.haberturk.com/rss/ekonomi.xml'')
        (str ''Ekonomi'') (str ''Haberturk'')]"

text \<open>The entries of a list that carry a given url.\<close>

definition entriesFor :: "jsstring \<Rightarrow> 'a news_scheme list \<Rightarrow> 'a news_scheme list" where
  "entriesFor u xs = filter (\<lambda>x. url x = Some u) xs"

section \<open>Evaluation\<close>

text \<open>
  The definitions that the simplifier unfolds to evaluate the model on a concrete text, and
  congruence rules that keep it from rewriting under the binder of a list predicate.
\<close>

lemma list_all_weak_cong: "xs = ys \<Longrightarrow> list_all P xs = list_all P ys" by simp
lemma list_ex_weak_cong: "xs = ys \<Longrightarrow> list_ex P xs = list_ex P ys" by simp
lemmas wk = list_all_weak_cong list_ex_weak_cong

lemmas evs = str_def lowerUnit_def toLowerCase_def isWhiteSpace_def trim_def startsWith_def normalizeText_def
lemmas evm = evs synonyms_def getSynonyms_def isWordChar_def canonicalize_def nextWord_def boundary_def
  wordHere_def testWord_def matchEnd_def suffixes_def matchesKeyword_def countKeywordOccurrences_def Let_def
lemmas evi = article_def entryTitle_def entryDescription_def orEmpty_def orElse_def truthy_def

lemma str_inj: "str a = str b \<longleftrightarrow> a = b"
  by (simp add: str_def inj_map_eq_map inj_def)

lemma links_ne: "linkB \<noteq> linkA" "linkC \<noteq> linkA" "linkC \<noteq> linkB"
  "linkA \<noteq> linkB" "linkA \<noteq> linkC" "linkB \<noteq> linkC"
  by (simp_all add: linkA_def linkB_def linkC_def str_def)

section \<open>Keyword validation\<close>

text \<open>
  C3. \<open>liveSearch\<close> fails with \<open>InvalidArgument\<close> for every keyword shorter than two code
  units, the keyword "a" among them, and returns a result list for every keyword of two or
  more, "ab" among them.
\<close>

theorem liveSearch_keyword_length:
  "(length keyword < 2 \<longrightarrow> liveSearch rt keyword opts = Inl InvalidArgument) \<and>
   (2 \<le> length keyword \<longrightarrow> (\<exists>items. liveSearch rt keyword opts = Inr items)) \<and>
   liveSearch rt (str ''a'') opts = Inl InvalidArgument \<and>
   (\<exists>items. liveSearch rt (str ''ab'') opts = Inr items)"
  by (auto simp: liveSearch_def str_def)

theorem liveSearch_keyword_length_witness:
  "length (str ''a'') < 2 \<and> liveSearch offline (str ''a'') defaultOptions = Inl InvalidArgument \<and>
   2 \<le> length (str ''ab'') \<and> (\<exists>items. liveSearch offline (str ''ab'') defaultOptions = Inr items)"
  using liveSearch_keyword_length [of "str ''a''" offline defaultOptions]
        liveSearch_keyword_length [of "str ''ab''" offline defaultOptions]
  by (simp add: str_def)

section \<open>Suffix matching\<close>

lemma matchSuffixes_iff:
  "matchSuffixes t syn sfx \<longleftrightarrow> (\<exists>suffix\<in>set sfx. testWord (syn @ suffix) t)"
  by (induction sfx) auto

lemma matchSynonyms_iff:
  "matchSynonyms t syns \<longleftrightarrow> (\<exists>syn\<in>set syns. matchSuffixes t syn suffixes)"
  by (induction syns) auto

subsection \<open>The word-boundary test, read off the text\<close>

lemma nextWord_hd: "nextWord s \<longleftrightarrow> s \<noteq> [] \<and> isWordChar (hd s)"
  by (cases s) (simp_all add: nextWord_def)

lemma afterLiteral_iff:
  "afterLiteral w p s = Some (w', s') \<longleftrightarrow>
     (\<exists>m. s = m @ s' \<and> map canonicalize m = map canonicalize p \<and> w' = lastWord w m)"
proof (induction w p s rule: afterLiteral.induct)
  case (1 w s)
  then show ?case by (auto simp: lastWord_def)
next
  case (2 w p ps)
  then show ?case by auto
next
  case (3 w p ps c s)
  show ?case
  proof (cases "canonicalize p = canonicalize c")
    case False
    have "\<not> (\<exists>m. c # s = m @ s' \<and> map canonicalize m = map canonicalize (p # ps) \<and> w' = lastWord w m)"
    proof
      assume "\<exists>m. c # s = m @ s' \<and> map canonicalize m = map canonicalize (p # ps) \<and> w' = lastWord w m"
      then obtain m where m: "c # s = m @ s'" "map canonicalize m = map canonicalize (p # ps)" by blast
      from m(2) obtain a m' where "m = a # m'" by (cases m) auto
      with m False show False by auto
    qed
    with False show ?thesis by simp
  next
    case True
    have "(\<exists>m. s = m @ s' \<and> map canonicalize m = map canonicalize ps \<and> w' = lastWord (isWordChar c) m) \<longleftrightarrow>
          (\<exists>m. c # s = m @ s' \<and> map canonicalize m = map canonicalize (p # ps) \<and> w' = lastWord w m)"
      (is "?L \<longleftrightarrow> ?R")
    proof
      assume ?L
      then obtain m where m: "s = m @ s'" "map canonicalize m = map canonicalize ps"
        "w' = lastWord (isWordChar c) m" by blast
      have "c # s = (c # m) @ s'" using m(1) by simp
      moreover have "map canonicalize (c # m) = map canonicalize (p # ps)" using m(2) True by simp
      moreover have "w' = lastWord w (c # m)" using m(3) by (simp add: lastWord_def)
      ultimately show ?R by blast
    next
      assume ?R
      then obtain m where m: "c # s = m @ s'" "map canonicalize m = map canonicalize (p # ps)"
        "w' = lastWord w m" by blast
      from m(2) obtain a m' where am: "m = a # m'" by (cases m) auto
      with m have "s = m' @ s'" "a = c" "map canonicalize m' = map canonicalize ps" by auto
      moreover have "w' = lastWord (isWordChar c) m'" using m(3) am \<open>a = c\<close> by (simp add: lastWord_def)
      ultimately show ?L by blast
    qed
    with True 3 show ?thesis by simp
  qed
qed

lemma wordHere_iff:
  "wordHere w p s \<longleftrightarrow>
     (\<exists>m after. s = m @ after \<and> map canonicalize m = map canonicalize p \<and>
        lastWord w [] \<noteq> nextWord (m @ after) \<and> lastWord w m \<noteq> nextWord after)"
proof -
  have "wordHere w p s \<longleftrightarrow> boundary w s \<and> (\<exists>w' s'. afterLiteral w p s = Some (w', s') \<and> boundary w' s')"
    by (auto simp: wordHere_def split: option.splits)
  also have "\<dots> \<longleftrightarrow> (\<exists>m after. s = m @ after \<and> map canonicalize m = map canonicalize p \<and>
        lastWord w [] \<noteq> nextWord (m @ after) \<and> lastWord w m \<noteq> nextWord after)"
    unfolding afterLiteral_iff by (auto simp: boundary_def lastWord_def)
  finally show ?thesis .
qed

lemma testFrom_iff:
  "testFrom w p s \<longleftrightarrow>
     (\<exists>before m after. s = before @ m @ after \<and> map canonicalize m = map canonicalize p \<and>
        lastWord w before \<noteq> nextWord (m @ after) \<and> lastWord w (before @ m) \<noteq> nextWord after)"
proof (induction s arbitrary: w)
  case Nil
  show ?case by (simp add: wordHere_iff)
next
  case (Cons c s)
  have "(\<exists>before m after. c # s = before @ m @ after \<and> map canonicalize m = map canonicalize p \<and>
        lastWord w before \<noteq> nextWord (m @ after) \<and> lastWord w (before @ m) \<noteq> nextWord after) \<longleftrightarrow>
        wordHere w p (c # s) \<or>
        (\<exists>before m after. s = before @ m @ after \<and> map canonicalize m = map canonicalize p \<and>
        lastWord (isWordChar c) before \<noteq> nextWord (m @ after) \<and>
        lastWord (isWordChar c) (before @ m) \<noteq> nextWord after)"
    (is "?L \<longleftrightarrow> ?H \<or> ?T")
  proof
    assume ?L
    then obtain before m after where x: "c # s = before @ m @ after"
      "map canonicalize m = map canonicalize p"
      "lastWord w before \<noteq> nextWord (m @ after)" "lastWord w (before @ m) \<noteq> nextWord after"
      by blast
    show "?H \<or> ?T"
    proof (cases before)
      case Nil
      with x have ?H unfolding wordHere_iff by auto
      then show ?thesis ..
    next
      case (Cons a b')
      with x have s: "s = b' @ m @ after" "a = c" by auto
      have l: "lastWord w (a # ys) = lastWord (isWordChar a) ys" for ys
        by (simp add: lastWord_def)
      from x(3,4) have "lastWord (isWordChar c) b' \<noteq> nextWord (m @ after)"
        "lastWord (isWordChar c) (b' @ m) \<noteq> nextWord after"
        using Cons s(2) l by auto
      with s(1) x(2) have ?T by blast
      then show ?thesis ..
    qed
  next
    assume "?H \<or> ?T"
    then show ?L
    proof
      assume ?H
      then obtain m after where "c # s = [] @ m @ after" "map canonicalize m = map canonicalize p"
        "lastWord w [] \<noteq> nextWord (m @ after)" "lastWord w ([] @ m) \<noteq> nextWord after"
        unfolding wordHere_iff by auto
      then show ?L by blast
    next
      assume ?T
      then obtain before m after where x: "s = before @ m @ after"
        "map canonicalize m = map canonicalize p"
        "lastWord (isWordChar c) before \<noteq> nextWord (m @ after)"
        "lastWord (isWordChar c) (before @ m) \<noteq> nextWord after" by blast
      have l: "lastWord w (c # ys) = lastWord (isWordChar c) ys" for ys
        by (simp add: lastWord_def)
      have "c # s = (c # before) @ m @ after" using x(1) by simp
      moreover have "lastWord w (c # before) \<noteq> nextWord (m @ after)" using x(3) l by simp
      moreover have "lastWord w ((c # before) @ m) \<noteq> nextWord after" using x(4) l [of "before @ m"] by simp
      ultimately show ?L using x(2) by blast
    qed
  qed
  with Cons show ?case by simp
qed

lemma lastWord_False: "lastWord False before \<longleftrightarrow> before \<noteq> [] \<and> isWordChar (last before)"
  by (simp add: lastWord_def)

lemma testWord_iff:
  "testWord p s \<longleftrightarrow>
     (\<exists>before m after. s = before @ m @ after \<and> map canonicalize m = map canonicalize p \<and>
        wordBoundary before (m @ after) \<and> wordBoundary (before @ m) after)"
  unfolding testWord_def testFrom_iff wordBoundary_def nextWord_hd lastWord_False ..

lemma set_uniq: "set (uniq seen xs) = set xs - set seen"
  by (induction seen xs rule: uniq.induct) auto

lemma distinct_uniq: "distinct (uniq seen xs)"
  by (induction seen xs rule: uniq.induct) (auto simp: set_uniq)

lemma getSynonyms_set:
  "set (getSynonyms keyword) =
     insert (normalizeText keyword)
       (\<Union>(key, vals) \<in> set synonyms.
           if key = normalizeText keyword \<or> normalizeText keyword \<in> set vals
           then set (key # vals) else {})"
  by (auto simp: getSynonyms_def Let_def set_uniq list_ex_iff split: if_splits)

lemma getSynonyms_first:
  "hd (getSynonyms keyword) = normalizeText keyword" "distinct (getSynonyms keyword)"
  by (simp_all add: getSynonyms_def Let_def distinct_uniq set_uniq)

subsection \<open>Synonyms and examples\<close>

lemma syn_values:
  "getSynonyms (str ''dolar'') =
     [str ''dolar'', str ''usd'', str ''amerikan dolari'', str ''dolarin'', str ''dolarda'']"
  "getSynonyms (str ''USD'') =
     [str ''usd'', str ''dolar'', str ''amerikan dolari'', str ''dolarin'', str ''dolarda'']"
  "getSynonyms (str ''borsa'') = [str ''borsa'', str ''bist'', str ''bist100'', str ''borsa istanbul'']"
  "getSynonyms (str ''Sanayi'') = [str ''sanayi'']"
  by (simp_all add: evm)

lemma match_examples:
  "matchesKeyword (str ''Dolarin yukselisi durmuyor'') (str ''dolar'')"
  "\<not> matchesKeyword (str ''Euro yukseldi'') (str ''dolar'')"
  "matchesKeyword (str ''Borsalar yukselisle acildi'') (str ''borsa'')"
  "list_all (\<lambda>syn. \<not> testWord syn (normalizeText (str ''Borsalar yukselisle acildi'')))
     (getSynonyms (str ''borsa''))"
  "matchesKeyword (str ''USD rekor kirdi'') (str ''dolar'')"
  "list_all (\<lambda>suffix. \<not> testWord (str ''dolar'' @ suffix) (normalizeText (str ''USD rekor kirdi'')))
     suffixes"
  "\<not> matchesKeyword (str ''Petrodolarlar artti'') (str ''dolar'')"
  "includes_js (normalizeText (str ''Petrodolarlar artti'')) (str ''dolarlar'')"
  "\<not> matchesKeyword (str ''Dolarimiz degerlendi'') (str ''dolar'')"
  "matchesKeyword (str ''DOLAR REKOR KIRDI'') (str ''Dolar'')"
  "list_all (\<lambda>suffix. matchesKeyword (str ''Kur, petrol'' @ suffix @ str '' ve borsa'') (str ''petrol''))
     suffixes"
  by (simp_all add: evm)

text \<open>
  C4. \<open>matchesKeyword\<close> holds exactly when the text and the keyword are not empty and, for
  some synonym of the keyword and some suffix of the list
  \<open>'', in, un, a, e, i, da, de, dan, den, la, le, lar, ler\<close>, the normalized text has the
  synonym with the suffix between word boundaries, compared without regard to case: the text
  splits into a part before, a part equal to the pattern up to case, and a part after, with
  \<open>\b\<close> on both sides of the middle part. The synonyms of a keyword are the normalized
  keyword, first, and every key and value of each row of the table that has the normalized
  keyword as its key or among its values.

  For the keyword "dolar" the text "Dolarin yukselisi durmuyor" matches and "Euro yukseldi"
  does not. "Borsalar yukselisle acildi" matches "borsa" through the suffix \<open>lar\<close> alone (no
  synonym occurs as a word); "USD rekor kirdi" matches "dolar" through the synonym \<open>usd\<close>
  alone (no suffixed form of "dolar" occurs); "Petrodolarlar artti" contains \<open>dolarlar\<close>
  but not at a word boundary, and "Dolarimiz degerlendi" has a suffix outside the list: neither
  matches. Every suffixed form of "petrol" is matched inside a sentence.
\<close>

theorem matchesKeyword_suffix_patterns:
  "(matchesKeyword text keyword \<longleftrightarrow>
      text \<noteq> [] \<and> keyword \<noteq> [] \<and>
      (\<exists>syn\<in>set (getSynonyms keyword). \<exists>suffix\<in>set suffixes.
          testWord (syn @ suffix) (normalizeText text))) \<and>
   suffixes = [[], str ''in'', str ''un'', str ''a'', str ''e'', str ''i'', str ''da'', str ''de'',
               str ''dan'', str ''den'', str ''la'', str ''le'', str ''lar'', str ''ler''] \<and>
   (testWord pattern s \<longleftrightarrow>
      (\<exists>before m after. s = before @ m @ after \<and> map canonicalize m = map canonicalize pattern \<and>
          wordBoundary before (m @ after) \<and> wordBoundary (before @ m) after)) \<and>
   (c < 128 \<longrightarrow> canonicalize c = (if 97 \<le> c \<and> c \<le> 122 then c - 32 else c)) \<and>
   set (getSynonyms keyword) =
     insert (normalizeText keyword)
       (\<Union>(key, vals) \<in> set synonyms.
           if key = normalizeText keyword \<or> normalizeText keyword \<in> set vals
           then set (key # vals) else {}) \<and>
   hd (getSynonyms keyword) = normalizeText keyword \<and>
   getSynonyms (str ''dolar'') =
     [str ''dolar'', str ''usd'', str ''amerikan dolari'', str ''dolarin'', str ''dolarda''] \<and>
   getSynonyms (str ''USD'') =
     [str ''usd'', str ''dolar'', str ''amerikan dolari'', str ''dolarin'', str ''dolarda''] \<and>
   getSynonyms (str ''borsa'') = [str ''borsa'', str ''bist'', str ''bist100'', str ''borsa istanbul''] \<and>
   getSynonyms (str ''Sanayi'') = [str ''sanayi''] \<and>
   matchesKeyword (str ''Dolarin yukselisi durmuyor'') (str ''dolar'') \<and>
   \<not> matchesKeyword (str ''Euro yukseldi'') (str ''dolar'') \<and>
   matchesKeyword (str ''Borsalar yukselisle acildi'') (str ''borsa'') \<and>
   list_all (\<lambda>syn. \<not> testWord syn (normalizeText (str ''Borsalar yukselisle acildi'')))
     (getSynonyms (str ''borsa'')) \<and>
   matchesKeyword (str ''USD rekor kirdi'') (str ''dolar'') \<and>
   list_all (\<lambda>suffix. \<not> testWord (str ''dolar'' @ suffix) (normalizeText (str ''USD rekor kirdi'')))
     suffixes \<and>
   \<not> matchesKeyword (str ''Petrodolarlar artti'') (str ''dolar'') \<and>
   includes_js (normalizeText (str ''Petrodolarlar artti'')) (str ''dolarlar'') \<and>
   \<not> matchesKeyword (str ''Dolarimiz degerlendi'') (str ''dolar'') \<and>
   matchesKeyword (str ''DOLAR REKOR KIRDI'') (str ''Dolar'') \<and>
   list_all (\<lambda>suffix. matchesKeyword (str ''Kur, petrol'' @ suffix @ str '' ve borsa'') (str ''petrol''))
     suffixes"
proof (intro conjI)
  show "matchesKeyword text keyword \<longleftrightarrow>
      text \<noteq> [] \<and> keyword \<noteq> [] \<and>
      (\<exists>syn\<in>set (getSynonyms keyword). \<exists>suffix\<in>set suffixes.
          testWord (syn @ suffix) (normalizeText text))"
    by (simp add: matchesKeyword_def matchSynonyms_iff matchSuffixes_iff)
  show "suffixes = [[], str ''in'', str ''un'', str ''a'', str ''e'', str ''i'', str ''da'', str ''de'',
               str ''dan'', str ''den'', str ''la'', str ''le'', str ''lar'', str ''ler'']"
    by (simp add: suffixes_def)
  show "testWord pattern s \<longleftrightarrow>
      (\<exists>before m after. s = before @ m @ after \<and> map canonicalize m = map canonicalize pattern \<and>
          wordBoundary before (m @ after) \<and> wordBoundary (before @ m) after)"
    by (rule testWord_iff)
  show "c < 128 \<longrightarrow> canonicalize c = (if 97 \<le> c \<and> c \<le> 122 then c - 32 else c)"
    by (simp add: canonicalize_def)
  show "set (getSynonyms keyword) =
     insert (normalizeText keyword)
       (\<Union>(key, vals) \<in> set synonyms.
           if key = normalizeText keyword \<or> normalizeText keyword \<in> set vals
           then set (key # vals) else {})"
    by (rule getSynonyms_set)
  show "hd (getSynonyms keyword) = normalizeText keyword"
    by (rule getSynonyms_first)
qed (rule syn_values match_examples)+

text \<open>The instance: "Borsalar yukselisle acildi" and "borsa", through the suffix \<open>lar\<close>.\<close>

theorem matchesKeyword_suffix_patterns_witness:
  "str ''Borsalar yukselisle acildi'' \<noteq> [] \<and> str ''borsa'' \<noteq> [] \<and>
   str ''borsa'' \<in> set (getSynonyms (str ''borsa'')) \<and> str ''lar'' \<in> set suffixes \<and>
   testWord (str ''borsa'' @ str ''lar'') (normalizeText (str ''Borsalar yukselisle acildi'')) \<and>
   matchesKeyword (str ''Borsalar yukselisle acildi'') (str ''borsa'')"
proof -
  have f: "str ''Borsalar yukselisle acildi'' \<noteq> []" "str ''borsa'' \<noteq> []"
    "str ''borsa'' \<in> set (getSynonyms (str ''borsa''))" "str ''lar'' \<in> set suffixes"
    "testWord (str ''borsa'' @ str ''lar'') (normalizeText (str ''Borsalar yukselisle acildi''))"
    by (simp_all add: evm)
  with matchesKeyword_suffix_patterns [of "str ''Borsalar yukselisle acildi''" "str ''borsa''"]
  have "matchesKeyword (str ''Borsalar yukselisle acildi'') (str ''borsa'')" by blast
  with f show ?thesis by simp
qed

section \<open>The content validator\<close>

lemma footer_norm:
  "normalizeText footerTitle = (str ''t'' @ 252 # str ''m haklar'' @ 305 # str '' sakl'' @ 305 # str ''d'' @ 305 # str ''r '' @ 169 # str '' 2024'')"
  by (simp add: footerTitle_def evs)

lemma headline_norm:
  "normalizeText headline = (str ''merkez bankas'' @ 305 # str '' faiz karar'' @ 305 # str ''n'' @ 305 # str '' a'' @ 231 # 305 # str ''klad'' @ [305])"
  by (simp add: headline_def evs)

lemma ordinary_norm: "normalizeText ordinary = str ''detaylar haberimizde''"
  by (simp add: ordinary_def evs)

lemma entry_fields:
  "orEmpty (item_title (entry t d)) = t"
  "orEmpty (orElse (item_contentSnippet (entry t d)) (item_content (entry t d))) = d"
  by (simp_all add: entry_def orEmpty_def orElse_def truthy_def)

lemma footer_no_spam:
  "\<not> list_ex (includes_js (normalizeText footerTitle @ str '' '' @ normalizeText ordinary)) spamKeywords"
  unfolding footer_norm ordinary_norm
  by (simp add: spamKeywords_def str_def startsWith_def cong: wk)

lemma headline_no_spam:
  "\<not> list_ex (includes_js (normalizeText headline @ str '' '' @ normalizeText ordinary)) spamKeywords"
  unfolding headline_norm ordinary_norm
  by (simp add: spamKeywords_def str_def startsWith_def cong: wk)

text \<open>
  C5. The specification has a title with a footer phrase rejected. \<open>isValidNews\<close> of
  \<open>src/scrapers/sites/RSSNewsScraper.js\<close> has no footer list: it accepts the item whose
  title is the copyright notice \<open>footerTitle\<close>, "Tum haklari saklidir (c) 2024" in Turkish
  letters; the normalized title has 27 units and the text has no spam word.
\<close>

theorem isValidNews_footer_title_accepted:
  "isValidNews (entry footerTitle ordinary)"
proof -
  have "length (normalizeText footerTitle) = 27" unfolding footer_norm by (simp add: str_def)
  with footer_no_spam show ?thesis
    by (simp add: isValidNews_def entry_fields Let_def)
qed

text \<open>The revised copy: a footer pattern in the title rejects, whatever the description.\<close>

lemma isValidNews_revised_pattern:
  "list_ex (includes_js (normalizeText (orEmpty (item_title item)))) invalidPatterns \<Longrightarrow>
   \<not> isValidNews_revised item"
  by (simp add: isValidNews_revised_def Let_def)

lemma isValidNews_revised_length:
  "isValidNews_revised item \<Longrightarrow>
   15 \<le> length (normalizeText (orEmpty (item_title item))) \<and>
   length (normalizeText (orEmpty (item_title item))) \<le> 300"
  by (simp add: isValidNews_revised_def Let_def split: if_splits)

lemma isValidNews_short:
  "length (normalizeText (orEmpty (item_title item))) < 15 \<Longrightarrow> \<not> isValidNews item"
  by (simp add: isValidNews_def Let_def)

lemma footer_pattern: "list_ex (includes_js (normalizeText footerTitle)) invalidPatterns"
  unfolding footer_norm
  by (simp add: invalidPatterns_def str_def startsWith_def)

lemma isValidNews_revised_footer: "\<not> isValidNews_revised (entry footerTitle ordinary)"
  by (rule isValidNews_revised_pattern) (simp add: entry_fields footer_pattern)

lemma headline_no_pattern: "\<not> list_ex (includes_js (normalizeText headline)) invalidPatterns"
  unfolding headline_norm
  by (simp add: invalidPatterns_def str_def startsWith_def cong: wk)

lemma headline_checks:
  "length (normalizeText headline) = 37"
  "\<not> startsWith (normalizeText headline) (str ''http'')"
  "\<not> startsWith (normalizeText headline) (str ''www.'')"
  "\<not> dateOnlyRegex (normalizeText headline)"
  "\<not> list_ex (\<lambda>s. normalizeText headline = s) sourceOnlyPatterns"
  "filter specialChar (normalizeText headline) = []"
  unfolding headline_norm
  by (simp_all add: str_def startsWith_def dateOnlyRegex_def isDigit_def sourceOnlyPatterns_def
        specialChar_def isWordChar_def isWhiteSpace_def)

lemma isValidNews_revised_headline: "isValidNews_revised (entry headline ordinary)"
  using headline_no_spam headline_no_pattern headline_checks
  by (simp add: isValidNews_revised_def entry_fields Let_def)

lemma isValidNews_headline: "isValidNews (entry headline ordinary)"
  using headline_no_spam headline_checks(1)
  by (simp add: isValidNews_def entry_fields Let_def)

lemma includes_set: "includes_js s p \<Longrightarrow> set p \<subseteq> set s"
proof (induction s)
  case Nil
  then show ?case by simp
next
  case (Cons c s)
  show ?case
  proof (cases "startsWith (c # s) p")
    case True
    then have "p = take (length p) (c # s)" by (simp add: startsWith_def)
    then have "set p \<subseteq> set (c # s)" by (metis set_take_subset)
    then show ?thesis .
  next
    case False
    with Cons show ?thesis by auto
  qed
qed

lemma long_norm: "normalizeText longTitle = longTitle"
proof -
  have l: "toLowerCase (replicate n 97) = replicate n 97" for n
    by (induction n) (simp_all add: toLowerCase_def lowerUnit_def)
  have w: "\<not> isWhiteSpace 97" by (simp add: isWhiteSpace_def)
  have "trim (replicate n 97) = replicate n 97" for n
    by (simp add: trim_def w)
  with l show ?thesis by (simp add: normalizeText_def longTitle_def)
qed

lemma long_no_spam:
  "\<not> list_ex (includes_js (normalizeText longTitle @ str '' '' @ normalizeText [])) spamKeywords"
proof -
  have e: "normalizeText [] = []" by (simp add: normalizeText_def)
  have s: "set (normalizeText longTitle @ str '' '' @ normalizeText []) = {97, 32}"
    unfolding long_norm e by (auto simp: longTitle_def str_def)
  have "\<not> includes_js (normalizeText longTitle @ str '' '' @ normalizeText []) spam"
    if "spam \<in> set spamKeywords" for spam
  proof
    assume "includes_js (normalizeText longTitle @ str '' '' @ normalizeText []) spam"
    then have "set spam \<subseteq> {97, 32}" using includes_set s by blast
    with that show False by (auto simp: spamKeywords_def str_def)
  qed
  then show ?thesis by (auto simp: list_ex_iff)
qed

text \<open>
  C6. The specification has a title of more than 300 characters rejected. \<open>isValidNews\<close>
  of \<open>src/scrapers/sites/RSSNewsScraper.js\<close> has the lower bound only: it accepts a title
  of 301 letters.
\<close>

theorem isValidNews_long_title_accepted:
  "length (normalizeText longTitle) = 301 \<and> isValidNews (entry longTitle [])"
proof -
  have len: "length (normalizeText longTitle) = 301"
    unfolding long_norm by (simp add: longTitle_def)
  with long_no_spam show ?thesis
    by (simp add: isValidNews_def entry_fields Let_def)
qed

text \<open>The revised copy rejects it.\<close>

lemma isValidNews_revised_long: "\<not> isValidNews_revised (entry longTitle [])"
proof
  assume "isValidNews_revised (entry longTitle [])"
  from isValidNews_revised_length [OF this]
  have "length (normalizeText longTitle) \<le> 300" by (simp add: entry_fields)
  then show False unfolding long_norm by (simp add: longTitle_def)
qed

section \<open>The category classifier\<close>

subsection \<open>Scores\<close>

lemma categoryScore_sum:
  "foldl (\<lambda>score keyword.
              if includes_js text (toLowerCase keyword) then
                (if includes_js t (toLowerCase keyword) then score + 3 else score + 1)
              else score) a kws =
   a + (\<Sum>keyword\<leftarrow>kws.
         if includes_js text (toLowerCase keyword)
         then (if includes_js t (toLowerCase keyword) then 3 else 1) else (0::nat))"
  by (induction kws arbitrary: a) auto

lemma score_step:
  "categoryScore ti text (keyword # kws) =
     (if includes_js text (toLowerCase keyword)
      then (if includes_js (normalizeText ti) (toLowerCase keyword) then 3 else 1) else 0) +
     categoryScore ti text kws"
  "categoryScore ti text [] = 0"
  by (simp_all add: categoryScore_def categoryScore_sum)

subsection \<open>The classifier of BloombergScraper\<close>














subsection \<open>The classifier of the revised RSSNewsScraper\<close>

lemma fold_max_ge: "(a::nat) \<le> fold max xs a"
proof (induction xs arbitrary: a)
  case Nil
  show ?case by simp
next
  case (Cons x xs)
  have "a \<le> max x a" by simp
  also have "\<dots> \<le> fold max xs (max x a)" by (rule Cons.IH)
  finally show ?case by simp
qed

lemma bestOf_step:
  "foldl (\<lambda>(maxScore, bestCategory) (category, score).
              if score > maxScore then (score, category) else (maxScore, bestCategory))
         (m0, b0) (scs :: (jsstring \<times> nat) list) =
   (fold max (map snd scs) m0,
    if fold max (map snd scs) m0 = m0 then b0
    else fst (hd (filter (\<lambda>(c, s). s = fold max (map snd scs) m0) scs)))"
proof (induction scs arbitrary: m0 b0)
  case Nil
  then show ?case by simp
next
  case (Cons cs scs)
  obtain c s where cs: "cs = (c, s)" by (cases cs)
  show ?case
  proof (cases "s > m0")
    case True
    then have mx: "max s m0 = s" by simp
    have "s \<le> fold max (map snd scs) s" by (rule fold_max_ge)
    with True have ne: "fold max (map snd scs) s \<noteq> m0" by linarith
    show ?thesis
      using True ne by (simp add: cs Cons.IH mx)
  next
    case False
    then have mx: "max s m0 = m0" by simp
    have ge: "m0 \<le> fold max (map snd scs) m0" by (rule fold_max_ge)
    show ?thesis
      using False ge by (auto simp add: cs Cons.IH mx)
  qed
qed

lemma Max_fold: "Max (insert (a::nat) (set xs)) = fold max xs a"
  using Max.set_eq_fold [of a xs] by simp

text \<open>
  The scoring classifier: the score of a category is three for every keyword of its list found
  in the title and one for every keyword found in the combined text but not in the title.
  \<open>detectCategory\<close> of the revised copy returns "Genel" when the highest score is below two,
  and otherwise the first category, in the order of the table, that has the highest score. A
  text with no keyword of any category gives "Genel".
\<close>

lemma detectCategory_revised_scoring:
  "categoryScore ti text kws =
     (\<Sum>keyword\<leftarrow>kws.
         if includes_js text (toLowerCase keyword)
         then (if includes_js (normalizeText ti) (toLowerCase keyword) then 3 else 1) else 0) \<and>
   detectCategory_revised ti de =
     (let m = Max (insert 0 (snd ` set (scores ti de)))
      in if m < 2 then Genel
         else fst (hd (filter (\<lambda>(cat, score). score = m) (scores ti de)))) \<and>
   ((\<forall>(cat, kws) \<in> set categoryKeywords_revised. \<forall>keyword \<in> set kws.
        \<not> includes_js (normalizeText (ti @ str '' '' @ de)) (toLowerCase keyword))
    \<longrightarrow> detectCategory_revised ti de = Genel)"
proof (intro conjI impI)
  show "categoryScore ti text kws =
     (\<Sum>keyword\<leftarrow>kws.
         if includes_js text (toLowerCase keyword)
         then (if includes_js (normalizeText ti) (toLowerCase keyword) then 3 else 1) else 0)"
    by (simp add: categoryScore_def categoryScore_sum)
  show eq: "detectCategory_revised ti de =
     (let m = Max (insert 0 (snd ` set (scores ti de)))
      in if m < 2 then Genel
         else fst (hd (filter (\<lambda>(cat, score). score = m) (scores ti de))))"
  proof -
    define m where "m = Max (insert 0 (snd ` set (scores ti de)))"
    have "bestOf (scores ti de) =
            (m, if m = 0 then Genel else fst (hd (filter (\<lambda>(c, s). s = m) (scores ti de))))"
      unfolding bestOf_def bestOf_step m_def using Max_fold [of 0 "map snd (scores ti de)"] by simp
    then have "detectCategory_revised ti de =
            (if m < 2 then Genel else fst (hd (filter (\<lambda>(c, s). s = m) (scores ti de))))"
      by (simp add: detectCategory_revised_def)
    then show ?thesis unfolding m_def Let_def .
  qed
  assume none: "\<forall>(cat, kws) \<in> set categoryKeywords_revised. \<forall>keyword \<in> set kws.
        \<not> includes_js (normalizeText (ti @ str '' '' @ de)) (toLowerCase keyword)"
  have "snd cs = 0" if "cs \<in> set (scores ti de)" for cs
  proof -
    from that obtain c kws where ck: "(c, kws) \<in> set categoryKeywords_revised"
      and cs: "cs = (c, categoryScore ti (normalizeText (ti @ str '' '' @ de)) kws)"
      by (auto simp: scores_def Let_def)
    from none ck have "\<forall>k\<in>set kws. \<not> includes_js (normalizeText (ti @ str '' '' @ de)) (toLowerCase k)"
      by auto
    then have "categoryScore ti (normalizeText (ti @ str '' '' @ de)) kws = 0"
      by (simp add: categoryScore_def categoryScore_sum)
    with cs show ?thesis by simp
  qed
  then have "snd ` set (scores ti de) \<subseteq> {0}" by auto
  then have "insert 0 (snd ` set (scores ti de)) = {0}" by auto
  then have "Max (insert 0 (snd ` set (scores ti de))) = 0" by (simp only: Max_singleton)
  with eq show "detectCategory_revised ti de = Genel" by (simp add: Let_def del: Max_insert)
qed

lemma text_norm: "normalizeText (str ''Yeni kitap cikti'' @ str '' '' @ []) = str ''yeni kitap cikti''"
  by (simp add: evs)

lemma nohit_list:
  "list_all (\<lambda>c. list_all (\<lambda>keyword. \<not> includes_js (str ''yeni kitap cikti'') (toLowerCase keyword)) (snd c))
     categoryKeywords_revised"
  by (simp add: evs categoryKeywords_revised_def cong: wk)

lemma nohit: "\<forall>(cat, kws) \<in> set categoryKeywords_revised. \<forall>keyword \<in> set kws.
        \<not> includes_js (normalizeText (str ''Yeni kitap cikti'' @ str '' '' @ [])) (toLowerCase keyword)"
  using nohit_list unfolding text_norm list_all_iff by auto

lemma detectCategory_revised_fallback:
  "list_all (\<lambda>c. list_all (\<lambda>keyword.
       \<not> includes_js (normalizeText (str ''Yeni kitap cikti'' @ str '' '' @ [])) (toLowerCase keyword)) (snd c))
     categoryKeywords_revised \<and>
   detectCategory_revised (str ''Yeni kitap cikti'') [] = Genel"
proof -
  have "detectCategory_revised (str ''Yeni kitap cikti'') [] = Genel"
    using detectCategory_revised_scoring [of "str ''Yeni kitap cikti''" "[]" "[]" "[]"] nohit
    by blast
  with nohit_list show ?thesis unfolding text_norm by simp
qed

text \<open>"gol dolar": three points each for "Ekonomi" and "Spor"; the first of the table wins.\<close>

lemma gol_norm: "normalizeText (str ''gol dolar'' @ str '' '' @ []) = str ''gol dolar''"
  "normalizeText (str ''gol dolar'') = str ''gol dolar''"
  by (simp_all add: evs)

lemma revised_scores:
  "scores (str ''gol dolar'') [] =
     [(str ''Ekonomi'', 3), (str ''Spor'', 3), (str ''Teknoloji'', 0),
      (str ''Sa'' @ 287 # str ''l'' @ 305 # str ''k'', 0), (str ''Magazin'', 0),
      (str ''D'' @ 252 # str ''nya'', 0), (str ''G'' @ 252 # str ''ndem'', 0), (str ''Son Dakika'', 0)]"
  unfolding scores_def Let_def gol_norm
  by (simp add: categoryKeywords_revised_def score_step evs)

lemma revised_gol: "detectCategory_revised (str ''gol dolar'') [] = str ''Ekonomi''"
  unfolding detectCategory_revised_def revised_scores
  by (simp add: bestOf_def Genel_def str_def)

section \<open>The keyword filter of the feed fetcher\<close>

lemma keeps_iff:
  "keyword \<noteq> [] \<Longrightarrow>
   keeps (Some keyword) item \<longleftrightarrow>
     isValidNews item \<and> (matchesKeyword (entryTitle item) keyword \<or>
                         2 \<le> countKeywordOccurrences (entryDescription item) keyword)"
  by (auto simp: keeps_def orEmpty_def truthy_def Let_def)

lemma entryTitle_cases:
  "entryTitle item = (case item_title item of Some t \<Rightarrow> t | None \<Rightarrow> [])"
  by (simp add: entryTitle_def orEmpty_def)

lemma entryDescription_cases:
  "entryDescription item =
     (case item_contentSnippet item of
        Some (c # s) \<Rightarrow> c # s
      | _ \<Rightarrow> (case item_content item of
                 Some (c # s) \<Rightarrow> c # s
               | _ \<Rightarrow> (case item_summary item of Some s \<Rightarrow> s | None \<Rightarrow> [])))"
  by (simp add: entryDescription_def orEmpty_def orElse_def truthy_def split: option.splits list.splits)

subsection \<open>The sample feed, entry by entry\<close>

lemma market_titles:
  "matchesKeyword (str ''Dolarin yukselisi durmuyor'') (str ''dolar'')"
  "\<not> matchesKeyword marketTitle (str ''dolar'')"
  "matchesKeyword (str ''Dolar'') (str ''dolar'')"
  by (simp_all add: marketTitle_def evm)

lemma market_counts:
  "countKeywordOccurrences (str ''piyasa ozeti'') (str ''dolar'') = 0"
  "countKeywordOccurrences (str ''dolar ve dolar kuru'') (str ''dolar'') = 2"
  "countKeywordOccurrences (str ''dolar yatay'') (str ''dolar'') = 1"
  "countKeywordOccurrences (str ''Dolar dustu, dolar cikti'') (str ''dolar'') = 2"
  "countKeywordOccurrences (str ''USD ve dolar'') (str ''dolar'') = 2"
  "countKeywordOccurrences (str ''dolar dolar dolar'') (str ''dolar'') = 3"
  by (simp_all add: evm)

text \<open>
  The count is the sum, over the synonyms of the keyword, of the matches of the synonym followed
  by word characters: a word that two synonyms match counts twice.
\<close>

lemma count_one_word: "countKeywordOccurrences (str ''euro'') (str ''euro'') = 2"
  by (simp add: evm)

lemma market_descriptions:
  "entryDescription (entry t (c # d)) = c # d"
  "entryDescription ((entry t [])\<lparr>item_content := Some d\<rparr>) = d"
  "entryDescription ((entry t [])\<lparr>item_contentSnippet := None, item_summary := Some d\<rparr>) = d"
  "entryTitle (entry t d) = t"
  "entryTitle ((entry t [])\<lparr>item_content := Some d\<rparr>) = t"
  "entryTitle ((entry t [])\<lparr>item_contentSnippet := None, item_summary := Some d\<rparr>) = t"
  by (simp_all add: entryDescription_cases entryTitle_cases entry_def split: list.splits)

lemma market_valid:
  "isValidNews (entry (str ''Dolarin yukselisi durmuyor'') (str ''piyasa ozeti''))"
  "isValidNews (entry marketTitle (str ''dolar ve dolar kuru''))"
  "isValidNews (entry marketTitle (str ''dolar yatay''))"
  "isValidNews ((entry marketTitle [])\<lparr>item_content := Some (str ''Dolar dustu, dolar cikti'')\<rparr>)"
  "isValidNews ((entry marketTitle [])\<lparr>item_contentSnippet := None, item_summary := Some (str ''USD ve dolar'')\<rparr>)"
  "\<not> isValidNews (entry (str ''Dolar'') (str ''dolar dolar dolar''))"
  by (simp_all add: isValidNews_def entry_def marketTitle_def orEmpty_def orElse_def truthy_def
        spamKeywords_def evs)

lemma str_simps: "str ''dolar'' \<noteq> []" "str ''dolar ve dolar kuru'' = 100 # str ''olar ve dolar kuru''"
  "str ''dolar yatay'' = 100 # str ''olar yatay''" "str ''piyasa ozeti'' = 112 # str ''iyasa ozeti''"
  "str ''dolar dolar dolar'' = 100 # str ''olar dolar dolar''"
  by (simp_all add: str_def)

lemma market_described:
  "entryDescription (entry t (str ''piyasa ozeti'')) = str ''piyasa ozeti''"
  "entryDescription (entry t (str ''dolar ve dolar kuru'')) = str ''dolar ve dolar kuru''"
  "entryDescription (entry t (str ''dolar yatay'')) = str ''dolar yatay''"
  "entryDescription (entry t (str ''dolar dolar dolar'')) = str ''dolar dolar dolar''"
  using market_descriptions(1) [of t] by (simp_all add: str_simps)

lemma market_keeps:
  "keeps (Some (str ''dolar'')) (entry (str ''Dolarin yukselisi durmuyor'') (str ''piyasa ozeti''))"
  "keeps (Some (str ''dolar'')) (entry marketTitle (str ''dolar ve dolar kuru''))"
  "\<not> keeps (Some (str ''dolar'')) (entry marketTitle (str ''dolar yatay''))"
  "keeps (Some (str ''dolar'')) ((entry marketTitle [])\<lparr>item_content := Some (str ''Dolar dustu, dolar cikti'')\<rparr>)"
  "keeps (Some (str ''dolar'')) ((entry marketTitle [])\<lparr>item_contentSnippet := None, item_summary := Some (str ''USD ve dolar'')\<rparr>)"
  "\<not> keeps (Some (str ''dolar'')) (entry (str ''Dolar'') (str ''dolar dolar dolar''))"
  unfolding keeps_iff [OF str_simps(1)] market_described market_descriptions
  by (simp_all add: market_valid market_titles market_counts)

lemma toNews_fields:
  "title (toNews rt key info i item) = trim (entryTitle item)"
  "description (toNews rt key info i item) = trim (take 500 (entryDescription item))"
  by (simp_all add: toNews_def Let_def)

lemma market_trims:
  "trim (str ''Dolarin yukselisi durmuyor'') = str ''Dolarin yukselisi durmuyor''"
  "trim marketTitle = marketTitle"
  "trim (take 500 (str ''piyasa ozeti'')) = str ''piyasa ozeti''"
  "trim (take 500 (str ''dolar ve dolar kuru'')) = str ''dolar ve dolar kuru''"
  "trim (take 500 (str ''Dolar dustu, dolar cikti'')) = str ''Dolar dustu, dolar cikti''"
  "trim (take 500 (str ''USD ve dolar'')) = str ''USD ve dolar''"
  by (simp_all add: marketTitle_def trim_def str_def isWhiteSpace_def)

lemma market_parse: "parseURL marketRoom (f_url ntv) = Some marketFeed"
  by (simp add: marketRoom_def ntv_def offline_def)

lemma market_scrape:
  "map (\<lambda>n. (title n, description n))
     (scrapeFromFeed marketRoom (str ''ntv_ekonomi'') ntv (Some (str ''dolar''))) =
   [(str ''Dolarin yukselisi durmuyor'', str ''piyasa ozeti''),
    (marketTitle, str ''dolar ve dolar kuru''),
    (marketTitle, str ''Dolar dustu, dolar cikti''),
    (marketTitle, str ''USD ve dolar'')]"
  unfolding scrapeFromFeed_def market_parse
  by (simp add: marketFeed_def enumerate_eq_zip upt_rec market_keeps toNews_fields
        market_descriptions market_described market_trims)

lemma market_table:
  "map (\<lambda>item. (isValidNews item, matchesKeyword (entryTitle item) (str ''dolar''),
                 countKeywordOccurrences (entryDescription item) (str ''dolar''),
                 keeps (Some (str ''dolar'')) item)) marketFeed =
   [(True, True, 0, True), (True, False, 2, True), (True, False, 1, False),
    (True, False, 2, True), (True, False, 2, True), (False, True, 3, False)]"
  by (simp add: marketFeed_def market_keeps market_descriptions market_described market_valid
        market_titles market_counts)

text \<open>
  C8. With a keyword, an entry that passes the validator is kept exactly when the keyword
  matches its title or occurs at least twice in its description, and an entry that fails the
  validator is dropped; the fetcher returns the kept entries of the feed, converted, in feed
  order. The title is \<open>item.title\<close> and the description the first non-empty of
  \<open>item.contentSnippet\<close>, \<open>item.content\<close> and \<open>item.summary\<close>. On the sample feed, for
  the keyword "dolar": the first entry is kept for its title; the second, fourth and fifth
  have no match in the title and two occurrences in the description (read from
  \<open>contentSnippet\<close>, \<open>content\<close> and \<open>summary\<close>) and are kept; the third has one
  occurrence and is dropped; the sixth matches in the title and has three occurrences, but
  fails the validator and is dropped.
\<close>

theorem scrapeFromFeed_keyword_filter:
  "(keyword \<noteq> [] \<longrightarrow>
     (isValidNews item \<longrightarrow>
        (keeps (Some keyword) item \<longleftrightarrow>
           matchesKeyword (entryTitle item) keyword \<or>
           2 \<le> countKeywordOccurrences (entryDescription item) keyword)) \<and>
     (\<not> isValidNews item \<longrightarrow> \<not> keeps (Some keyword) item) \<and>
     (parseURL rt (f_url info) = Some items \<longrightarrow>
        scrapeFromFeed rt key info (Some keyword) =
          map (\<lambda>(i, item). toNews rt key info i item)
            (filter (\<lambda>(i, item). isValidNews item \<and>
                       (matchesKeyword (entryTitle item) keyword \<or>
                        2 \<le> countKeywordOccurrences (entryDescription item) keyword))
               (enumerate 0 items)))) \<and>
   entryTitle item = (case item_title item of Some t \<Rightarrow> t | None \<Rightarrow> []) \<and>
   entryDescription item =
     (case item_contentSnippet item of
        Some (c # s) \<Rightarrow> c # s
      | _ \<Rightarrow> (case item_content item of
                 Some (c # s) \<Rightarrow> c # s
               | _ \<Rightarrow> (case item_summary item of Some s \<Rightarrow> s | None \<Rightarrow> []))) \<and>
   title (toNews rt key info i item) = trim (entryTitle item) \<and>
   description (toNews rt key info i item) = trim (take 500 (entryDescription item)) \<and>
   map (\<lambda>item. (isValidNews item, matchesKeyword (entryTitle item) (str ''dolar''),
                 countKeywordOccurrences (entryDescription item) (str ''dolar''),
                 keeps (Some (str ''dolar'')) item)) marketFeed =
     [(True, True, 0, True), (True, False, 2, True), (True, False, 1, False),
      (True, False, 2, True), (True, False, 2, True), (False, True, 3, False)] \<and>
   map (\<lambda>n. (title n, description n))
     (scrapeFromFeed marketRoom (str ''ntv_ekonomi'') ntv (Some (str ''dolar''))) =
     [(str ''Dolarin yukselisi durmuyor'', str ''piyasa ozeti''),
      (marketTitle, str ''dolar ve dolar kuru''),
      (marketTitle, str ''Dolar dustu, dolar cikti''),
      (marketTitle, str ''USD ve dolar'')]"
proof (intro conjI impI)
  assume k: "keyword \<noteq> []"
  show "keeps (Some keyword) item \<longleftrightarrow>
           matchesKeyword (entryTitle item) keyword \<or>
           2 \<le> countKeywordOccurrences (entryDescription item) keyword"
    if "isValidNews item" using that keeps_iff [OF k] by simp
  show "\<not> keeps (Some keyword) item" if "\<not> isValidNews item"
    using that keeps_iff [OF k] by simp
  show "scrapeFromFeed rt key info (Some keyword) =
          map (\<lambda>(i, item). toNews rt key info i item)
            (filter (\<lambda>(i, item). isValidNews item \<and>
                       (matchesKeyword (entryTitle item) keyword \<or>
                        2 \<le> countKeywordOccurrences (entryDescription item) keyword))
               (enumerate 0 items))"
    if "parseURL rt (f_url info) = Some items"
  proof -
    have "(\<lambda>(i :: nat, it). keeps (Some keyword) it) =
          (\<lambda>(i, item). isValidNews item \<and>
                       (matchesKeyword (entryTitle item) keyword \<or>
                        2 \<le> countKeywordOccurrences (entryDescription item) keyword))"
      by (simp add: fun_eq_iff keeps_iff [OF k])
    with that show ?thesis by (simp add: scrapeFromFeed_def)
  qed
next
  show "entryTitle item = (case item_title item of Some t \<Rightarrow> t | None \<Rightarrow> [])"
    by (rule entryTitle_cases)
  show "entryDescription item =
     (case item_contentSnippet item of
        Some (c # s) \<Rightarrow> c # s
      | _ \<Rightarrow> (case item_content item of
                 Some (c # s) \<Rightarrow> c # s
               | _ \<Rightarrow> (case item_summary item of Some s \<Rightarrow> s | None \<Rightarrow> [])))"
    by (rule entryDescription_cases)
  show "title (toNews rt key info i item) = trim (entryTitle item)"
    by (rule toNews_fields)
  show "description (toNews rt key info i item) = trim (take 500 (entryDescription item))"
    by (rule toNews_fields)
  show "map (\<lambda>item. (isValidNews item, matchesKeyword (entryTitle item) (str ''dolar''),
                 countKeywordOccurrences (entryDescription item) (str ''dolar''),
                 keeps (Some (str ''dolar'')) item)) marketFeed =
     [(True, True, 0, True), (True, False, 2, True), (True, False, 1, False),
      (True, False, 2, True), (True, False, 2, True), (False, True, 3, False)]"
    by (rule market_table)
  show "map (\<lambda>n. (title n, description n))
     (scrapeFromFeed marketRoom (str ''ntv_ekonomi'') ntv (Some (str ''dolar''))) =
     [(str ''Dolarin yukselisi durmuyor'', str ''piyasa ozeti''),
      (marketTitle, str ''dolar ve dolar kuru''),
      (marketTitle, str ''Dolar dustu, dolar cikti''),
      (marketTitle, str ''USD ve dolar'')]"
    by (rule market_scrape)
qed

text \<open>
  The instance: the second entry of the sample feed, kept for its description alone, and the
  sixth, dropped by the validator.
\<close>

theorem scrapeFromFeed_keyword_filter_witness:
  "str ''dolar'' \<noteq> [] \<and>
   isValidNews (entry marketTitle (str ''dolar ve dolar kuru'')) \<and>
   \<not> matchesKeyword (entryTitle (entry marketTitle (str ''dolar ve dolar kuru''))) (str ''dolar'') \<and>
   countKeywordOccurrences (entryDescription (entry marketTitle (str ''dolar ve dolar kuru''))) (str ''dolar'') = 2 \<and>
   keeps (Some (str ''dolar'')) (entry marketTitle (str ''dolar ve dolar kuru'')) \<and>
   \<not> isValidNews (entry (str ''Dolar'') (str ''dolar dolar dolar'')) \<and>
   \<not> keeps (Some (str ''dolar'')) (entry (str ''Dolar'') (str ''dolar dolar dolar'')) \<and>
   parseURL marketRoom (f_url ntv) = Some marketFeed \<and>
   scrapeFromFeed marketRoom (str ''ntv_ekonomi'') ntv (Some (str ''dolar'')) =
     map (\<lambda>(i, item). toNews marketRoom (str ''ntv_ekonomi'') ntv i item)
       (filter (\<lambda>(i, item). isValidNews item \<and>
                  (matchesKeyword (entryTitle item) (str ''dolar'') \<or>
                   2 \<le> countKeywordOccurrences (entryDescription item) (str ''dolar'')))
          (enumerate 0 marketFeed))"
proof -
  have c: "countKeywordOccurrences (entryDescription (entry marketTitle (str ''dolar ve dolar kuru''))) (str ''dolar'') = 2"
    unfolding market_described by (rule market_counts)
  have m: "\<not> matchesKeyword (entryTitle (entry marketTitle (str ''dolar ve dolar kuru''))) (str ''dolar'')"
    unfolding market_descriptions by (rule market_titles)
  from scrapeFromFeed_keyword_filter [of "str ''dolar''" "entry marketTitle (str ''dolar ve dolar kuru'')"
      marketRoom ntv marketFeed "str ''ntv_ekonomi''"]
    scrapeFromFeed_keyword_filter [of "str ''dolar''" "entry (str ''Dolar'') (str ''dolar dolar dolar'')"
      marketRoom ntv marketFeed "str ''ntv_ekonomi''"]
    str_simps(1) market_valid(2) market_valid(6) market_parse c m
  show ?thesis by simp
qed

section \<open>Ranking and deduplication\<close>

lemma truthy_Some: "truthy v \<longleftrightarrow> (\<exists>s. v = Some s \<and> s \<noteq> [])"
  by (cases v) (auto simp: truthy_def)

lemma entriesFor_uniqueByUrl:
  "u \<noteq> [] \<Longrightarrow>
   entriesFor u (uniqueByUrl seen xs) = (if u \<in> set seen then [] else take 1 (entriesFor u xs))"
proof (induction xs arbitrary: seen)
  case Nil
  then show ?case by (simp add: entriesFor_def)
next
  case (Cons x xs)
  show ?case
  proof (cases "truthy (url x)")
    case False
    then have "url x \<noteq> Some u" using Cons.prems by (auto simp: truthy_Some)
    with False show ?thesis using Cons by (simp add: entriesFor_def)
  next
    case True
    then obtain v where v: "url x = Some v" "v \<noteq> []" by (auto simp: truthy_Some)
    show ?thesis
      using Cons v True by (auto simp: entriesFor_def orEmpty_def)
  qed
qed

lemma entriesFor_uniqueByUrl_empty: "entriesFor [] (uniqueByUrl seen xs) = []"
  by (induction xs arbitrary: seen) (auto simp: entriesFor_def truthy_def split: option.splits)

lemma entriesFor_unique_le1: "length (entriesFor u (uniqueByUrl [] xs)) \<le> 1"
  by (cases "u = []") (simp_all add: entriesFor_uniqueByUrl entriesFor_uniqueByUrl_empty)

lemma entriesFor_take_le: "length (entriesFor u (take k xs)) \<le> length (entriesFor u xs)"
proof -
  have "entriesFor u xs = entriesFor u (take k xs) @ entriesFor u (drop k xs)"
    unfolding entriesFor_def by (metis append_take_drop_id filter_append)
  then show ?thesis by simp
qed

lemma slice0_take: "\<exists>k. slice0 n xs = take k xs"
  by (auto simp: slice0_def)

lemma sortByScore_sorted:
  "sorted_wrt (\<lambda>a b. relevanceScore b \<le> relevanceScore a) (sortByScore xs)"
proof -
  have "sorted (map (\<lambda>item. - relevanceScore item) (sortByScore xs))"
    unfolding sortByScore_def by (rule sorted_sort_key)
  then show ?thesis by (simp add: sorted_map)
qed

lemma sortByScore_stable:
  "filter (\<lambda>y. relevanceScore y = k) (sortByScore xs) = filter (\<lambda>y. relevanceScore y = k) xs"
  using sort_key_stable [of "\<lambda>item. - relevanceScore item" "- k" xs]
  by (simp add: sortByScore_def)

lemma set_sortByScore: "set (sortByScore xs) = set xs"
  by (simp add: sortByScore_def)

lemma sorted_wrt_filter_hd:
  assumes "sorted_wrt P xs" "filter Q xs = e # rest" "y \<in> set xs" "Q y" "\<And>a. P a a"
  shows "P e y"
proof -
  have "sorted_wrt P (filter Q xs)" using assms(1) by (rule sorted_wrt_filter)
  then have "sorted_wrt P (e # rest)" using assms(2) by simp
  moreover have "y \<in> set (filter Q xs)" using assms(3,4) by simp
  then have "y \<in> set (e # rest)" using assms(2) by simp
  ultimately show ?thesis using assms(5) by auto
qed

text \<open>The first entry for a url in the sorted list: highest score, earliest among equals.\<close>

lemma first_entry_best:
  assumes "entriesFor u (sortByScore xs) = e # rest"
  shows "e \<in> set xs" and "url e = Some u"
    and "\<forall>y\<in>set xs. url y = Some u \<longrightarrow> relevanceScore y \<le> relevanceScore e"
    and "hd (filter (\<lambda>y. url y = Some u \<and> relevanceScore y = relevanceScore e) xs) = e"
proof -
  have mem: "e \<in> set (entriesFor u (sortByScore xs))" using assms by simp
  then show "e \<in> set xs" and ue: "url e = Some u"
    by (auto simp: entriesFor_def set_sortByScore)
  show "\<forall>y\<in>set xs. url y = Some u \<longrightarrow> relevanceScore y \<le> relevanceScore e"
  proof (intro ballI impI)
    fix y assume "y \<in> set xs" "url y = Some u"
    then show "relevanceScore y \<le> relevanceScore e"
      using sorted_wrt_filter_hd [OF sortByScore_sorted, of "\<lambda>x. url x = Some u" xs e rest y] assms
      by (simp add: entriesFor_def set_sortByScore)
  qed
  have "filter (\<lambda>y. url y = Some u \<and> relevanceScore y = relevanceScore e) xs =
        filter (\<lambda>y. url y = Some u) (filter (\<lambda>y. relevanceScore y = relevanceScore e) xs)"
    by (simp add: conj_commute)
  also have "\<dots> = filter (\<lambda>y. url y = Some u) (filter (\<lambda>y. relevanceScore y = relevanceScore e) (sortByScore xs))"
    by (simp add: sortByScore_stable)
  also have "\<dots> = filter (\<lambda>y. relevanceScore y = relevanceScore e) (entriesFor u (sortByScore xs))"
    by (simp add: entriesFor_def conj_commute)
  also have "\<dots> = e # filter (\<lambda>y. relevanceScore y = relevanceScore e) rest"
    using assms by simp
  finally show "hd (filter (\<lambda>y. url y = Some u \<and> relevanceScore y = relevanceScore e) xs) = e"
    by simp
qed

lemma unique_entry:
  assumes "u \<noteq> []" "x \<in> set xs" "url x = Some u"
  shows "\<exists>e. entriesFor u (uniqueByUrl [] (sortByScore xs)) = [e] \<and> e \<in> set xs \<and> url e = Some u \<and>
             (\<forall>y\<in>set xs. url y = Some u \<longrightarrow> relevanceScore y \<le> relevanceScore e) \<and>
             hd (filter (\<lambda>y. url y = Some u \<and> relevanceScore y = relevanceScore e) xs) = e"
proof -
  have "x \<in> set (entriesFor u (sortByScore xs))"
    using assms by (simp add: entriesFor_def set_sortByScore)
  then obtain e rest where er: "entriesFor u (sortByScore xs) = e # rest"
    by (cases "entriesFor u (sortByScore xs)") auto
  have "entriesFor u (uniqueByUrl [] (sortByScore xs)) = [e]"
    using assms(1) er by (simp add: entriesFor_uniqueByUrl)
  with first_entry_best [OF er] show ?thesis by blast
qed

lemma entriesFor_prefix:
  assumes "entriesFor u xs = [e]"
  shows "entriesFor u (take k xs) = (if e \<in> set (take k xs) then [e] else [])"
proof -
  have split: "entriesFor u xs = entriesFor u (take k xs) @ entriesFor u (drop k xs)"
    unfolding entriesFor_def by (metis append_take_drop_id filter_append)
  have "e \<in> set (entriesFor u xs)" using assms by simp
  then have ue: "url e = Some u" by (simp add: entriesFor_def)
  show ?thesis
  proof (cases "e \<in> set (take k xs)")
    case True
    then have "e \<in> set (entriesFor u (take k xs))" using ue by (simp add: entriesFor_def)
    then have "entriesFor u (take k xs) \<noteq> []" by auto
    with split assms have "entriesFor u (take k xs) = [e]"
      by (metis append_eq_Cons_conv append_is_Nil_conv)
    with True show ?thesis by simp
  next
    case False
    have "entriesFor u (take k xs) = []"
    proof (rule ccontr)
      assume "entriesFor u (take k xs) \<noteq> []"
      then obtain y where y: "y \<in> set (entriesFor u (take k xs))"
        by (cases "entriesFor u (take k xs)") auto
      then have "y \<in> set (entriesFor u xs)" using split by simp
      then have "y = e" using assms by simp
      moreover have "y \<in> set (take k xs)" using y by (simp add: entriesFor_def)
      ultimately show False using False by simp
    qed
    with False show ?thesis by simp
  qed
qed

subsection \<open>One search, evaluated\<close>

lemma keeps1: "keeps (Some (str ''dolar'')) (article (str ''Dolar bugun yatay seyretti'') l)"
  by (simp add: keeps_def isValidNews_def spamKeywords_def evi evm)
lemma keeps2: "keeps (Some (str ''dolar'')) (article (str ''Dolar yukselirken dolar endeksi geriledi'') l)"
  by (simp add: keeps_def isValidNews_def spamKeywords_def evi evm)
lemma keeps3: "keeps (Some (str ''dolar'')) (article (str ''Dolar, dolar ve yine dolar gunu'') l)"
  by (simp add: keeps_def isValidNews_def spamKeywords_def evi evm)

lemma count1: "countKeywordOccurrences (str ''Dolar bugun yatay seyretti'') (str ''dolar'') = 1"
  by (simp add: evm)
lemma count2: "countKeywordOccurrences (str ''Dolar yukselirken dolar endeksi geriledi'') (str ''dolar'') = 2"
  by (simp add: evm)
lemma count3: "countKeywordOccurrences (str ''Dolar, dolar ve yine dolar gunu'') (str ''dolar'') = 3"
  by (simp add: evm)
lemma count0: "countKeywordOccurrences [] k = 0"
  by (simp add: countKeywordOccurrences_def)


lemma toNews_article:
  "toNews newsroom (str ''ntv_ekonomi'') \<lparr>f_url = ntvUrl, f_category = str ''Ekonomi'', f_source = str ''NTV''\<rparr> i
     (article t (str ''https://example.com/'' @ r)) =
   dollarNews (trim t) (str ''https://example.com/'' @ r)"
  by (simp add: toNews_def dollarNews_def newsroom_def offline_def fixUrl_def toDate_def evi
        startsWith_def str_def trim_def)

lemma scrape_ntv:
  "scrapeFromFeed newsroom (str ''ntv_ekonomi'') \<lparr>f_url = ntvUrl, f_category = str ''Ekonomi'', f_source = str ''NTV''\<rparr>
     (Some (str ''dolar'')) =
   [dollarNews (str ''Dolar bugun yatay seyretti'') linkA,
    dollarNews (str ''Dolar yukselirken dolar endeksi geriledi'') linkA,
    dollarNews (str ''Dolar, dolar ve yine dolar gunu'') linkB]"
proof -
  have t: "trim (str ''Dolar bugun yatay seyretti'') = str ''Dolar bugun yatay seyretti''"
    "trim (str ''Dolar yukselirken dolar endeksi geriledi'') = str ''Dolar yukselirken dolar endeksi geriledi''"
    "trim (str ''Dolar, dolar ve yine dolar gunu'') = str ''Dolar, dolar ve yine dolar gunu''"
    by (simp_all add: trim_def str_def isWhiteSpace_def)
  have l: "linkA = str ''https://example.com/'' @ str ''a''" "linkB = str ''https://example.com/'' @ str ''b''"
    by (simp_all add: linkA_def linkB_def str_def)
  have p: "parseURL newsroom ntvUrl = Some dollarFeed"
    by (simp add: newsroom_def offline_def)
  show ?thesis
    unfolding scrapeFromFeed_def
    by (simp add: p dollarFeed_def enumerate_eq_zip keeps1 keeps2 keeps3 upt_rec l
          toNews_article t)
qed

lemma scrape_other:
  "f_url info \<noteq> ntvUrl \<Longrightarrow> scrapeFromFeed newsroom key info keyword = []"
  by (simp add: scrapeFromFeed_def newsroom_def offline_def)


lemma concat_map_Nil: "concat (map (\<lambda>x. []) xs) = []"
  by (induction xs) auto

lemma google_offline: "searchGoogleNews newsroom keyword = []"
proof -
  have "parseURL newsroom (googleNewsUrl newsroom term) = None" for "term"
    by (simp add: googleNewsUrl_def newsroom_def offline_def ntvUrl_def str_def)
  then show ?thesis by (simp add: searchGoogleNews_def concat_map_Nil)
qed

lemma take5: "take 5 rssFeeds = firstFive"
  by (simp add: rssFeeds_def firstFive_def feed_def ntvUrl_def)

lemma scrape_firstFive:
  "map (\<lambda>(key, info). scrapeFromFeed newsroom key info (Some (str ''dolar''))) firstFive =
   [dollarResults, [], [], [], []]"
proof -
  have "scrapeFromFeed newsroom key \<lparr>f_url = str ''https://www.cnnturk.com/feed/rss/ekonomi/news'', f_category = a, f_source = b\<rparr> k = []"
       "scrapeFromFeed newsroom key \<lparr>f_url = str ''https://www.hurriyet.com.tr/rss/ekonomi'', f_category = a, f_source = b\<rparr> k = []"
       "scrapeFromFeed newsroom key \<lparr>f_url = str ''https://www.sozcu.com.tr/feeds-rss-category-ekonomi'', f_category = a, f_source = b\<rparr> k = []"
       "scrapeFromFeed newsroom key \<lparr>f_url = str ''https://www.haberturk.com/rss/ekonomi.xml'', f_category = a, f_source = b\<rparr> k = []"
    for key a b k
    by (rule scrape_other, simp add: ntvUrl_def str_def)+
  then show ?thesis
    by (simp add: firstFive_def scrape_ntv dollarResults_def feed_def)
qed

lemma first_batch:
  "0 < lim \<Longrightarrow> lim \<le> 100 \<Longrightarrow> batches newsroom (str ''dolar'') lim firstFive [] = dollarResults"
proof -
  assume lim: "0 < lim" "lim \<le> 100"
  have l: "length dollarResults = 3" by (simp add: dollarResults_def)
  have f: "firstFive \<noteq> []" "take 5 firstFive = firstFive" "drop 5 firstFive = []"
    by (simp_all add: firstFive_def)
  show ?thesis
    by (simp add: batches.simps [of _ _ _ firstFive] batches.simps [of _ _ _ "[]"] f scrape_firstFive l Let_def)
qed

lemma gather_five:
  "gather newsroom (str ''dolar'') fiveSources = dollarResults"
  "gather newsroom (str ''dolar'') topOne = dollarResults"
proof -
  have sh: "shuffle newsroom rssFeeds = rssFeeds" by (simp add: newsroom_def offline_def)
  have sl: "slice0 5 rssFeeds = firstFive" by (simp add: slice0_def take5)
  show "gather newsroom (str ''dolar'') fiveSources = dollarResults"
    by (simp add: gather_def fiveSources_def truthy_def sh sl first_batch)
  show "gather newsroom (str ''dolar'') topOne = dollarResults"
    by (simp add: gather_def topOne_def truthy_def sh sl first_batch)
qed

lemma score_dollar:
  "score (str ''dolar'') 0 (dollarNews t l) = int (countKeywordOccurrences t (str ''dolar'')) * 10 + 20"
  by (simp add: score_def dollarNews_def count0 GoogleNews_def recencyBonus_def str_def)

lemma scoreAll_dollar:
  "scoreAll newsroom (str ''dolar'') dollarResults =
     [withScore (dollarNews (str ''Dolar bugun yatay seyretti'') linkA) 30,
      withScore (dollarNews (str ''Dolar yukselirken dolar endeksi geriledi'') linkA) 40,
      withScore (dollarNews (str ''Dolar, dolar ve yine dolar gunu'') linkB) 50]"
proof -
  have c: "searchClock newsroom i = 0" for i by (simp add: newsroom_def offline_def)
  show ?thesis
    by (simp add: scoreAll_def dollarResults_def enumerate_eq_zip upt_rec c score_dollar count1 count2 count3)
qed

lemma unique_dollar:
  "unique newsroom (str ''dolar'') dollarResults =
     [withScore (dollarNews (str ''Dolar, dolar ve yine dolar gunu'') linkB) 50,
      withScore (dollarNews (str ''Dolar yukselirken dolar endeksi geriledi'') linkA) 40]"
proof -
  have ne: "linkA \<noteq> linkB" "linkB \<noteq> linkA" "linkA \<noteq> []" "linkB \<noteq> []"
    by (simp_all add: linkA_def linkB_def str_def)
  show ?thesis
    by (simp add: unique_def scoreAll_dollar sortByScore_def withScore_def dollarNews_def
          truthy_def orEmpty_def ne)
qed

lemma limits: "limit fiveSources = 100" "limit topOne = 1"
  by (simp_all add: fiveSources_def topOne_def)

lemma dolar_long: "str ''dolar'' \<noteq> []" "\<not> length (str ''dolar'') < 2"
  by (simp_all add: str_def)

lemma liveSearch_dollar:
  "liveSearch newsroom (str ''dolar'') fiveSources =
     Inr [withScore (dollarNews (str ''Dolar, dolar ve yine dolar gunu'') linkB) 50,
          withScore (dollarNews (str ''Dolar yukselirken dolar endeksi geriledi'') linkA) 40]"
  "liveSearch newsroom (str ''dolar'') topOne =
     Inr [withScore (dollarNews (str ''Dolar, dolar ve yine dolar gunu'') linkB) 50]"
  by (simp_all add: liveSearch_def dolar_long rank_def gather_five unique_dollar slice0_def limits)

subsection \<open>Deduplication after the sort\<close>

text \<open>
  C1, as amended. The list \<open>unique\<close>, built by one pass over the results sorted by descending
  score, has exactly one entry for every non-empty url that occurs in the results: the entry of
  highest score, the earliest of the result list among equals. The returned list is the first
  \<open>limit\<close> entries of \<open>unique\<close>: it has at most one entry for a url, that entry when it lies
  within the limit, and no entry for the url otherwise.
\<close>

theorem liveSearch_dedup_after_sort:
  "liveSearch rt keyword opts = Inr out \<longrightarrow>
     out = slice0 (limit opts) (unique rt keyword (gather rt keyword opts)) \<and>
     length (entriesFor u out) \<le> 1 \<and>
     (u \<noteq> [] \<and> (\<exists>x\<in>set (scoreAll rt keyword (gather rt keyword opts)). url x = Some u) \<longrightarrow>
        (\<exists>e. entriesFor u (unique rt keyword (gather rt keyword opts)) = [e] \<and>
             e \<in> set (scoreAll rt keyword (gather rt keyword opts)) \<and> url e = Some u \<and>
             (\<forall>y\<in>set (scoreAll rt keyword (gather rt keyword opts)).
                 url y = Some u \<longrightarrow> relevanceScore y \<le> relevanceScore e) \<and>
             hd (filter (\<lambda>y. url y = Some u \<and> relevanceScore y = relevanceScore e)
                   (scoreAll rt keyword (gather rt keyword opts))) = e \<and>
             entriesFor u out = (if e \<in> set out then [e] else []) \<and>
             (int (length (unique rt keyword (gather rt keyword opts))) \<le> limit opts \<longrightarrow>
                entriesFor u out = [e])))"
proof (intro impI)
  assume ls: "liveSearch rt keyword opts = Inr out"
  define sc where "sc = scoreAll rt keyword (gather rt keyword opts)"
  define un where "un = unique rt keyword (gather rt keyword opts)"
  have un: "un = uniqueByUrl [] (sortByScore sc)" by (simp add: un_def sc_def unique_def)
  have out: "out = slice0 (limit opts) un"
    using ls by (auto simp: liveSearch_def rank_def un_def split: if_splits)
  obtain k where k: "out = take k un" using out slice0_take by metis
  have le: "length (entriesFor u out) \<le> 1"
  proof -
    have "length (entriesFor u out) \<le> length (entriesFor u un)"
      unfolding k by (rule entriesFor_take_le)
    also have "\<dots> \<le> 1" unfolding un by (rule entriesFor_unique_le1)
    finally show ?thesis .
  qed
  have main: "\<exists>e. entriesFor u un = [e] \<and> e \<in> set sc \<and> url e = Some u \<and>
             (\<forall>y\<in>set sc. url y = Some u \<longrightarrow> relevanceScore y \<le> relevanceScore e) \<and>
             hd (filter (\<lambda>y. url y = Some u \<and> relevanceScore y = relevanceScore e) sc) = e \<and>
             entriesFor u out = (if e \<in> set out then [e] else []) \<and>
             (int (length un) \<le> limit opts \<longrightarrow> entriesFor u out = [e])"
    if u: "u \<noteq> []" and ex: "\<exists>x\<in>set sc. url x = Some u"
  proof -
    from ex obtain x where x: "x \<in> set sc" "url x = Some u" by blast
    from unique_entry [OF u x] obtain e where e: "entriesFor u un = [e]" "e \<in> set sc" "url e = Some u"
      "\<forall>y\<in>set sc. url y = Some u \<longrightarrow> relevanceScore y \<le> relevanceScore e"
      "hd (filter (\<lambda>y. url y = Some u \<and> relevanceScore y = relevanceScore e) sc) = e"
      unfolding un by blast
    have p: "entriesFor u out = (if e \<in> set out then [e] else [])"
      unfolding k using e(1) by (rule entriesFor_prefix)
    have "out = un" if "int (length un) \<le> limit opts"
      using that out by (auto simp: slice0_def)
    then have "int (length un) \<le> limit opts \<longrightarrow> entriesFor u out = [e]"
      using e(1) by auto
    with e p show ?thesis by blast
  qed
  show "out = slice0 (limit opts) (unique rt keyword (gather rt keyword opts)) \<and>
     length (entriesFor u out) \<le> 1 \<and>
     (u \<noteq> [] \<and> (\<exists>x\<in>set (scoreAll rt keyword (gather rt keyword opts)). url x = Some u) \<longrightarrow>
        (\<exists>e. entriesFor u (unique rt keyword (gather rt keyword opts)) = [e] \<and>
             e \<in> set (scoreAll rt keyword (gather rt keyword opts)) \<and> url e = Some u \<and>
             (\<forall>y\<in>set (scoreAll rt keyword (gather rt keyword opts)).
                 url y = Some u \<longrightarrow> relevanceScore y \<le> relevanceScore e) \<and>
             hd (filter (\<lambda>y. url y = Some u \<and> relevanceScore y = relevanceScore e)
                   (scoreAll rt keyword (gather rt keyword opts))) = e \<and>
             entriesFor u out = (if e \<in> set out then [e] else []) \<and>
             (int (length (unique rt keyword (gather rt keyword opts))) \<le> limit opts \<longrightarrow>
                entriesFor u out = [e])))"
    using out le main unfolding sc_def un_def by blast
qed

theorem liveSearch_dedup_after_sort_witness:
  "liveSearch newsroom (str ''dolar'') fiveSources =
     Inr [withScore (dollarNews (str ''Dolar, dolar ve yine dolar gunu'') linkB) 50,
          withScore (dollarNews (str ''Dolar yukselirken dolar endeksi geriledi'') linkA) 40] \<and>
   linkA \<noteq> [] \<and>
   (\<exists>x\<in>set (scoreAll newsroom (str ''dolar'') (gather newsroom (str ''dolar'') fiveSources)). url x = Some linkA) \<and>
   int (length (unique newsroom (str ''dolar'') (gather newsroom (str ''dolar'') fiveSources))) \<le> limit fiveSources \<and>
   (\<exists>e. entriesFor linkA [withScore (dollarNews (str ''Dolar, dolar ve yine dolar gunu'') linkB) 50,
          withScore (dollarNews (str ''Dolar yukselirken dolar endeksi geriledi'') linkA) 40] = [e] \<and>
        relevanceScore e = 40)"
proof -
  have ne: "linkB \<noteq> linkA" "linkA \<noteq> []" by (simp_all add: linkA_def linkB_def str_def)
  have ex: "\<exists>x\<in>set (scoreAll newsroom (str ''dolar'') (gather newsroom (str ''dolar'') fiveSources)). url x = Some linkA"
    unfolding gather_five scoreAll_dollar by (simp add: withScore_def dollarNews_def)
  have len: "int (length (unique newsroom (str ''dolar'') (gather newsroom (str ''dolar'') fiveSources))) \<le> limit fiveSources"
    unfolding gather_five unique_dollar limits by simp
  from liveSearch_dedup_after_sort [of newsroom "str ''dolar''" fiveSources
        "[withScore (dollarNews (str ''Dolar, dolar ve yine dolar gunu'') linkB) 50,
          withScore (dollarNews (str ''Dolar yukselirken dolar endeksi geriledi'') linkA) 40]" linkA]
    liveSearch_dollar(1) ne(2) ex len
  obtain e where e: "entriesFor linkA [withScore (dollarNews (str ''Dolar, dolar ve yine dolar gunu'') linkB) 50,
          withScore (dollarNews (str ''Dolar yukselirken dolar endeksi geriledi'') linkA) 40] = [e]"
    by blast
  then have "e = withScore (dollarNews (str ''Dolar yukselirken dolar endeksi geriledi'') linkA) 40"
    by (simp add: entriesFor_def withScore_def dollarNews_def ne)
  then have "relevanceScore e = 40" by (simp add: withScore_def)
  with e liveSearch_dollar(1) ne(2) ex len show ?thesis by blast
qed

text \<open>
  C1 as stated fails where the limit cuts the list: of three results with scores 30, 40 and 50,
  the first two with the same url, a search with limit 1 returns the third alone.
\<close>

theorem liveSearch_dedup_truncated_counterexample:
  "map url dollarResults = [Some linkA, Some linkA, Some linkB] \<and>
   map relevanceScore (scoreAll newsroom (str ''dolar'') dollarResults) = [30, 40, 50] \<and>
   gather newsroom (str ''dolar'') topOne = dollarResults \<and>
   liveSearch newsroom (str ''dolar'') topOne =
     Inr [withScore (dollarNews (str ''Dolar, dolar ve yine dolar gunu'') linkB) 50] \<and>
   entriesFor linkA [withScore (dollarNews (str ''Dolar, dolar ve yine dolar gunu'') linkB) 50] = []"
proof (intro conjI)
  show "map url dollarResults = [Some linkA, Some linkA, Some linkB]"
    by (simp add: dollarResults_def dollarNews_def)
  show "map relevanceScore (scoreAll newsroom (str ''dolar'') dollarResults) = [30, 40, 50]"
    by (simp add: scoreAll_dollar withScore_def)
  show "gather newsroom (str ''dolar'') topOne = dollarResults"
    by (rule gather_five)
  show "liveSearch newsroom (str ''dolar'') topOne =
     Inr [withScore (dollarNews (str ''Dolar, dolar ve yine dolar gunu'') linkB) 50]"
    by (rule liveSearch_dollar)
  have ne: "linkB \<noteq> linkA" by (simp add: linkA_def linkB_def str_def)
  show "entriesFor linkA [withScore (dollarNews (str ''Dolar, dolar ve yine dolar gunu'') linkB) 50] = []"
    by (simp add: entriesFor_def withScore_def dollarNews_def ne)
qed

subsection \<open>The relevance score\<close>

lemma category_toNews: "category (toNews rt key info i item) = f_category info"
  by (simp add: toNews_def Let_def)

lemma feed_items_category:
  "x \<in> set (scrapeFromFeed rt key info keyword) \<Longrightarrow> category x = f_category info"
proof (cases "parseURL rt (f_url info)")
  case None
  assume "x \<in> set (scrapeFromFeed rt key info keyword)"
  with None show ?thesis by (simp add: scrapeFromFeed_def)
next
  case (Some items)
  assume "x \<in> set (scrapeFromFeed rt key info keyword)"
  with Some obtain i item where "x = toNews rt key info i item"
    by (auto simp: scrapeFromFeed_def)
  then show ?thesis by (simp add: category_toNews)
qed

lemma set_uniqueByUrl: "set (uniqueByUrl seen xs) \<subseteq> set xs"
  by (induction xs arbitrary: seen) auto

lemma category_googleItem:
  "category (googleItem rt u i item) = GoogleNews" "feedKey (googleItem rt u i item) = str ''google_news''"
  by (simp_all add: googleItem_def Let_def)

lemma registry_categories: "list_all (\<lambda>f. f_category (snd f) \<noteq> GoogleNews) rssFeeds"
  by (simp add: rssFeeds_def feed_def GoogleNews_def str_inj cong: wk)

lemma google_items_category:
  assumes "x \<in> set (searchGoogleNews rt keyword)"
  shows "category x = GoogleNews \<and> feedKey x = str ''google_news''"
proof -
  define results where "results = concat (map (\<lambda>term.
                       case parseURL rt (googleNewsUrl rt term) of
                         None \<Rightarrow> []
                       | Some items \<Rightarrow>
                           map (\<lambda>(i, item). googleItem rt (googleNewsUrl rt term) i item)
                               (filter (\<lambda>(i, item). googleValid item) (enumerate 0 (take 15 items))))
                     (take 3 (getSynonyms keyword)))"
  have "searchGoogleNews rt keyword = uniqueByUrl [] results"
    by (simp add: searchGoogleNews_def results_def)
  with assms have "x \<in> set results" using set_uniqueByUrl by fastforce
  then obtain tm where tm: "x \<in> set (case parseURL rt (googleNewsUrl rt tm) of
                         None \<Rightarrow> []
                       | Some items \<Rightarrow>
                           map (\<lambda>(i, item). googleItem rt (googleNewsUrl rt tm) i item)
                               (filter (\<lambda>(i, item). googleValid item) (enumerate 0 (take 15 items))))"
    unfolding results_def by auto
  then obtain i item where "x = googleItem rt (googleNewsUrl rt tm) i item"
    by (cases "parseURL rt (googleNewsUrl rt tm)") auto
  then show ?thesis by (simp add: category_googleItem)
qed

lemma sorted_uniqueByUrl:
  "sorted_wrt P xs \<Longrightarrow> sorted_wrt P (uniqueByUrl seen xs)"
proof (induction xs arbitrary: seen)
  case Nil
  then show ?case by simp
next
  case (Cons x xs)
  have "\<forall>y\<in>set (uniqueByUrl s xs). P x y" for s
    using Cons.prems set_uniqueByUrl [of s xs] by auto
  with Cons show ?case by auto
qed

lemma sorted_slice0: "sorted_wrt P xs \<Longrightarrow> sorted_wrt P (slice0 n xs)"
  by (simp add: slice0_def sorted_wrt_take)

lemma set_slice0: "set (slice0 n xs) \<subseteq> set xs"
  by (auto simp: slice0_def dest: in_set_takeD)

lemma scoreAll_member:
  assumes "x \<in> set (scoreAll rt keyword results)"
  shows "\<exists>i item. item \<in> set results \<and> x = withScore item (score keyword (searchClock rt i) item)"
proof -
  from assms obtain p where p: "p \<in> set (enumerate 0 results)"
    and x: "x = withScore (snd p) (score keyword (searchClock rt (fst p)) (snd p))"
    by (auto simp: scoreAll_def)
  have "snd p \<in> set results" using p by (metis enumerate_eq_zip prod.collapse set_zip_rightD)
  with x show ?thesis by blast
qed

text \<open>
  C2. Every returned item has the score ten times the occurrences of the keyword in its title,
  plus twice those in its description, plus five when its category is "Google News", plus the
  recency bonus for its age at the time it was scored: 20 under one hour, 10 under six, 5 under
  twenty-four, 0 otherwise and for an invalid date. The items of the search-engine channel are
  the ones with the category "Google News": no feed of the registry has it. The results are
  sorted by descending score, and sorting keeps the order of items of equal score.
\<close>

theorem liveSearch_relevance_score:
  "liveSearch rt keyword opts = Inr out \<longrightarrow>
     (\<forall>x\<in>set out. \<exists>i.
         relevanceScore x =
           10 * int (countKeywordOccurrences (title x) keyword) +
           2 * int (countKeywordOccurrences (description x) keyword) +
           (if category x = GoogleNews then 5 else 0) +
           recencyBonus (searchClock rt i) (publishedAt x)) \<and>
     (\<forall>x\<in>set (searchGoogleNews rt keyword). category x = GoogleNews) \<and>
     (\<forall>(key, info)\<in>set rssFeeds. \<forall>x\<in>set (scrapeFromFeed rt key info (Some keyword)).
         category x \<noteq> GoogleNews) \<and>
     (\<forall>now t. recencyBonus now None = 0 \<and>
         recencyBonus now (Some t) =
           (if now - t < 3600000 then 20 else if now - t < 21600000 then 10
            else if now - t < 86400000 then 5 else 0)) \<and>
     out = slice0 (limit opts)
             (uniqueByUrl [] (sortByScore (scoreAll rt keyword (gather rt keyword opts)))) \<and>
     sorted_wrt (\<lambda>a b. relevanceScore a \<ge> relevanceScore b)
        (sortByScore (scoreAll rt keyword (gather rt keyword opts))) \<and>
     (\<forall>k. filter (\<lambda>y. relevanceScore y = k) (sortByScore (scoreAll rt keyword (gather rt keyword opts))) =
          filter (\<lambda>y. relevanceScore y = k) (scoreAll rt keyword (gather rt keyword opts))) \<and>
     sorted_wrt (\<lambda>a b. relevanceScore a \<ge> relevanceScore b) out"
proof (intro impI conjI allI)
  assume ls: "liveSearch rt keyword opts = Inr out"
  define sc where "sc = scoreAll rt keyword (gather rt keyword opts)"
  show out: "out = slice0 (limit opts)
             (uniqueByUrl [] (sortByScore (scoreAll rt keyword (gather rt keyword opts))))"
    using ls by (auto simp: liveSearch_def rank_def unique_def split: if_splits)
  show "\<forall>x\<in>set out. \<exists>i.
         relevanceScore x =
           10 * int (countKeywordOccurrences (title x) keyword) +
           2 * int (countKeywordOccurrences (description x) keyword) +
           (if category x = GoogleNews then 5 else 0) +
           recencyBonus (searchClock rt i) (publishedAt x)"
  proof
    fix x assume "x \<in> set out"
    then have "x \<in> set (scoreAll rt keyword (gather rt keyword opts))"
    proof -
      assume "x \<in> set out"
      then have "x \<in> set (uniqueByUrl [] (sortByScore (scoreAll rt keyword (gather rt keyword opts))))"
        using out set_slice0 by fastforce
      then have "x \<in> set (sortByScore (scoreAll rt keyword (gather rt keyword opts)))"
        using set_uniqueByUrl by fastforce
      then show ?thesis by (simp add: set_sortByScore)
    qed
    then obtain i item where "x = withScore item (score keyword (searchClock rt i) item)"
      using scoreAll_member by blast
    then have "relevanceScore x =
           10 * int (countKeywordOccurrences (title x) keyword) +
           2 * int (countKeywordOccurrences (description x) keyword) +
           (if category x = GoogleNews then 5 else 0) +
           recencyBonus (searchClock rt i) (publishedAt x)"
      by (simp add: withScore_def score_def)
    then show "\<exists>i. relevanceScore x =
           10 * int (countKeywordOccurrences (title x) keyword) +
           2 * int (countKeywordOccurrences (description x) keyword) +
           (if category x = GoogleNews then 5 else 0) +
           recencyBonus (searchClock rt i) (publishedAt x)" ..
  qed
  show "\<forall>x\<in>set (searchGoogleNews rt keyword). category x = GoogleNews"
    using google_items_category by blast
  show "\<forall>(key, info)\<in>set rssFeeds. \<forall>x\<in>set (scrapeFromFeed rt key info (Some keyword)).
         category x \<noteq> GoogleNews"
  proof (intro ballI, clarify)
    fix key info x
    assume f: "(key, info) \<in> set rssFeeds" and x: "x \<in> set (scrapeFromFeed rt key info (Some keyword))"
      and g: "category x = GoogleNews"
    from f registry_categories have "f_category info \<noteq> GoogleNews"
      by (auto simp: list_all_iff)
    with feed_items_category [OF x] g show False by simp
  qed
  show "recencyBonus now None = 0" for now
    by (simp add: recencyBonus_def)
  show "recencyBonus now (Some t) =
           (if now - t < 3600000 then 20 else if now - t < 21600000 then 10
            else if now - t < 86400000 then 5 else 0)" for now t
    by (simp add: recencyBonus_def)
  show s: "sorted_wrt (\<lambda>a b. relevanceScore a \<ge> relevanceScore b)
        (sortByScore (scoreAll rt keyword (gather rt keyword opts)))"
    by (rule sortByScore_sorted)
  show "filter (\<lambda>y. relevanceScore y = k) (sortByScore (scoreAll rt keyword (gather rt keyword opts))) =
          filter (\<lambda>y. relevanceScore y = k) (scoreAll rt keyword (gather rt keyword opts))" for k
    by (rule sortByScore_stable)
  show "sorted_wrt (\<lambda>a b. relevanceScore a \<ge> relevanceScore b) out"
    unfolding out using s by (intro sorted_slice0 sorted_uniqueByUrl)
qed

theorem liveSearch_relevance_score_witness:
  "liveSearch newsroom (str ''dolar'') fiveSources =
     Inr [withScore (dollarNews (str ''Dolar, dolar ve yine dolar gunu'') linkB) 50,
          withScore (dollarNews (str ''Dolar yukselirken dolar endeksi geriledi'') linkA) 40] \<and>
   (\<exists>i. (50::int) =
      10 * int (countKeywordOccurrences (str ''Dolar, dolar ve yine dolar gunu'') (str ''dolar'')) +
      2 * int (countKeywordOccurrences [] (str ''dolar'')) +
      (if str ''Ekonomi'' = GoogleNews then 5 else 0) +
      recencyBonus (searchClock newsroom i) (Some 0))"
proof -
  from liveSearch_relevance_score [of newsroom "str ''dolar''" fiveSources
        "[withScore (dollarNews (str ''Dolar, dolar ve yine dolar gunu'') linkB) 50,
          withScore (dollarNews (str ''Dolar yukselirken dolar endeksi geriledi'') linkA) 40]"]
    liveSearch_dollar(1)
  have "\<forall>x\<in>set [withScore (dollarNews (str ''Dolar, dolar ve yine dolar gunu'') linkB) 50,
          withScore (dollarNews (str ''Dolar yukselirken dolar endeksi geriledi'') linkA) 40]. \<exists>i.
         relevanceScore x =
           10 * int (countKeywordOccurrences (title x) (str ''dolar'')) +
           2 * int (countKeywordOccurrences (description x) (str ''dolar'')) +
           (if category x = GoogleNews then 5 else 0) +
           recencyBonus (searchClock newsroom i) (publishedAt x)"
    by blast
  then have "\<exists>i. (50::int) =
      10 * int (countKeywordOccurrences (str ''Dolar, dolar ve yine dolar gunu'') (str ''dolar'')) +
      2 * int (countKeywordOccurrences [] (str ''dolar'')) +
      (if str ''Ekonomi'' = GoogleNews then 5 else 0) +
      recencyBonus (searchClock newsroom i) (Some 0)"
    by (simp add: withScore_def dollarNews_def)
  with liveSearch_dollar(1) show ?thesis by blast
qed

section \<open>Persistence\<close>

lemma saveOne_total:
  "saveOne upd t1 t2 t3 (res, db) item = (res', db') \<Longrightarrow>
   saved res' + duplicates res' + length (errors res') = Suc (saved res + duplicates res + length (errors res))"
  by (auto simp: saveOne_def split: prod.splits sum.splits if_splits)

lemma saveLoop_total:
  "saveLoop upd clock k (res, db) items = (res', db') \<Longrightarrow>
   saved res' + duplicates res' + length (errors res') =
   saved res + duplicates res + length (errors res) + length items"
proof (induction items arbitrary: k res db)
  case Nil
  then show ?case by simp
next
  case (Cons item rest)
  obtain r1 d1 where s: "saveOne upd (clock k) (clock (k + 1)) (clock (k + 2)) (res, db) item = (r1, d1)"
    by (cases "saveOne upd (clock k) (clock (k + 1)) (clock (k + 2)) (res, db) item")
  from Cons.prems s have "saveLoop upd clock (k + 3) (r1, d1) rest = (res', db')"
    by simp
  from Cons.IH [OF this] saveOne_total [OF s] show ?case by simp
qed

lemma saveLoop_append:
  "saveLoop upd clock k st (xs @ ys) =
   saveLoop upd clock (k + 3 * length xs) (saveLoop upd clock k st xs) ys"
  by (induction xs arbitrary: k st) (simp_all add: add.assoc)

text \<open>
  C10. Whatever the persistence handle answers, every turn of the loop adds one to exactly one
  of \<open>saved\<close>, \<open>duplicates\<close> and the error list, so the three add up to the number of
  items. An answer with \<open>upsertedCount > 0\<close> counts as saved, any other as a duplicate; an
  error with code 11000 counts as a duplicate; any other error is recorded with the item's url
  and the message. The loop goes on after each of them: the items after a prefix are
  processed from the state the prefix left.
\<close>

theorem saveNews_accounts_for_every_item:
  "(saveNews upd clock db items = (res, db') \<longrightarrow>
      saved res + duplicates res + length (errors res) = length items) \<and>
   (upd db0 (setOf item t1) t2 t3 = (Inr n, db1) \<longrightarrow>
      saveOne upd t1 t2 t3 (r, db0) item =
        (if n > 0 then r\<lparr>saved := saved r + 1\<rparr> else r\<lparr>duplicates := duplicates r + 1\<rparr>, db1)) \<and>
   (upd db0 (setOf item t1) t2 t3 = (Inl err, db1) \<and> code err = Some 11000 \<longrightarrow>
      saveOne upd t1 t2 t3 (r, db0) item = (r\<lparr>duplicates := duplicates r + 1\<rparr>, db1)) \<and>
   (upd db0 (setOf item t1) t2 t3 = (Inl err, db1) \<and> code err \<noteq> Some 11000 \<longrightarrow>
      saveOne upd t1 t2 t3 (r, db0) item =
        (r\<lparr>errors := errors r @ [(in_url item, message err)]\<rparr>, db1)) \<and>
   saveLoop upd clock k st (xs @ ys) =
     saveLoop upd clock (k + 3 * length xs) (saveLoop upd clock k st xs) ys"
proof (intro conjI impI)
  assume a: "saveNews upd clock db items = (res, db')"
  show "saved res + duplicates res + length (errors res) = length items"
  proof (cases "items = []")
    case True
    with a show ?thesis by (auto simp: saveNews_def)
  next
    case False
    with a have "saveLoop upd clock 0 (\<lparr>saved = 0, duplicates = 0, errors = []\<rparr>, db) items = (res, db')"
      by (simp add: saveNews_def)
    from saveLoop_total [OF this] show ?thesis by simp
  qed
next
  show "saveLoop upd clock k st (xs @ ys) =
     saveLoop upd clock (k + 3 * length xs) (saveLoop upd clock k st xs) ys"
    by (rule saveLoop_append)
qed (auto simp: saveOne_def)

lemma links_trim: "trim linkA = linkA" "trim linkB = linkB" "trim linkC = linkC"
  by (simp_all add: linkA_def linkB_def linkC_def trim_def str_def isWhiteSpace_def)

lemma flaky_batch:
  "saveNews flaky (\<lambda>k. int k) Map.empty batch =
     (\<lparr>saved = 1, duplicates = 1, errors = [(linkB, str ''connection timed out'')]\<rparr>,
      [linkC \<mapsto> applySet (castUpdate (setOf (sample (str ''Altin fiyatlari geriledi'') linkC) 6)) 8
                   (fresh linkC 7)])"
proof -
  have u: "d_url (setOf (sample t l) k) = l" "d_url (castUpdate (setOf (sample t l) k)) = trim l" for t l k
    by (simp_all add: setOf_def sample_def castUpdate_def)
  have i: "in_url (sample t l) = l" for t l by (simp add: sample_def)
  show ?thesis
    by (simp add: saveNews_def batch_def saveOne_def flaky_def updateOne_def links_ne u i links_trim
          Let_def)
qed

theorem saveNews_accounts_for_every_item_witness:
  "saveNews flaky (\<lambda>k. int k) Map.empty batch =
     (\<lparr>saved = 1, duplicates = 1, errors = [(linkB, str ''connection timed out'')]\<rparr>,
      [linkC \<mapsto> applySet (castUpdate (setOf (sample (str ''Altin fiyatlari geriledi'') linkC) 6)) 8
                   (fresh linkC 7)]) \<and>
   saved \<lparr>saved = 1, duplicates = 1, errors = [(linkB, str ''connection timed out'')]\<rparr> +
   duplicates \<lparr>saved = 1, duplicates = 1, errors = [(linkB, str ''connection timed out'')]\<rparr> +
   length (errors \<lparr>saved = 1, duplicates = 1, errors = [(linkB, str ''connection timed out'')]\<rparr>) =
   length batch"
  using saveNews_accounts_for_every_item [of flaky "\<lambda>k. int k" Map.empty batch
      "\<lparr>saved = 1, duplicates = 1, errors = [(linkB, str ''connection timed out'')]\<rparr>"
      "[linkC \<mapsto> applySet (castUpdate (setOf (sample (str ''Altin fiyatlari geriledi'') linkC) 6)) 8
                   (fresh linkC 7)]"]
    flaky_batch
  by blast

subsection \<open>Idempotence\<close>

lemma orLast_snoc: "orLast (ns @ [n]) x = orOld n (orLast ns x)"
  by (simp add: orLast_def)

lemma orLast_idem: "orLast ns (orLast ns x) = orLast ns x"
proof (induction ns arbitrary: x rule: rev_induct)
  case Nil
  show ?case by (simp add: orLast_def)
next
  case (snoc n ns)
  show ?case
  proof (cases n)
    case None
    then show ?thesis using snoc by (simp add: orLast_snoc orOld_def)
  next
    case (Some v)
    then show ?thesis by (simp add: orLast_snoc orOld_def)
  qed
qed

lemma orLast_last: "ns \<noteq> [] \<Longrightarrow> last ns = Some v \<Longrightarrow> orLast ns x = Some v"
  by (cases ns rule: rev_cases) (simp_all add: orLast_snoc orOld_def)

lemma applyAll_snoc: "applyAll (ws @ [w]) d = applySet (fst w) (snd (snd w)) (applyAll ws d)"
  by (simp add: applyAll_def)

lemma applyAll_Cons: "applyAll (w # ws) d = applyAll ws (applySet (fst w) (snd (snd w)) d)"
  by (simp add: applyAll_def)

lemma applyAll_fields:
  "d_title (applyAll ws d) = orLast (map (\<lambda>w. d_title (fst w)) ws) (d_title d)"
  "d_summary (applyAll ws d) = orLast (map (\<lambda>w. d_summary (fst w)) ws) (d_summary d)"
  "d_imageUrl (applyAll ws d) = orLast (map (\<lambda>w. d_imageUrl (fst w)) ws) (d_imageUrl d)"
  "d_category (applyAll ws d) = orLast (map (\<lambda>w. d_category (fst w)) ws) (d_category d)"
  "d_source (applyAll ws d) = orLast (map (\<lambda>w. d_source (fst w)) ws) (d_source d)"
  "d_keywords (applyAll ws d) = orLast (map (\<lambda>w. d_keywords (fst w)) ws) (d_keywords d)"
  "d_publishedAt (applyAll ws d) = orLast (map (\<lambda>w. d_publishedAt (fst w)) ws) (d_publishedAt d)"
  "createdAt (applyAll ws d) = createdAt d"
  by (induction ws rule: rev_induct)
     (simp_all add: applyAll_snoc orLast_snoc applySet_def, simp_all add: applyAll_def orLast_def)

lemma applyAll_last:
  "ws \<noteq> [] \<Longrightarrow>
   d_url (applyAll ws d) = d_url (fst (last ws)) \<and>
   d_scrapedAt (applyAll ws d) = d_scrapedAt (fst (last ws)) \<and>
   d_isActive (applyAll ws d) = d_isActive (fst (last ws)) \<and>
   updatedAt (applyAll ws d) = snd (snd (last ws))"
  by (cases ws rule: rev_cases) (simp_all add: applyAll_snoc applySet_def)

lemma foldl_applyWrite_Some: "foldl applyWrite (Some d) ws = Some (applyAll ws d)"
  by (induction ws arbitrary: d) (simp_all add: applyAll_def applyWrite_def split: prod.splits)

lemma foldl_applyWrite_None:
  "foldl applyWrite None (w # ws) = Some (applyAll (w # ws) (fresh (d_url (fst w)) (fst (snd w))))"
  by (simp add: foldl_applyWrite_Some applyAll_Cons applyWrite_def split: prod.splits)

lemma wkey: "d_url (castUpdate (setOf item t)) = urlKey item"
  by (simp add: castUpdate_def setOf_def urlKey_def)

lemma saveOne_updateOne:
  "saveOne updateOne t1 t2 t3 (res, db) item =
     (if db (urlKey item) = None then res\<lparr>saved := saved res + 1\<rparr>
      else res\<lparr>duplicates := duplicates res + 1\<rparr>,
      db(urlKey item := applyWrite (db (urlKey item)) (castUpdate (setOf item t1), t2, t3)))"
  by (simp add: saveOne_def updateOne_def Let_def wkey applyWrite_def split: option.splits)

lemma applyWrite_Some: "\<exists>d. applyWrite old w = Some d"
  by (simp add: applyWrite_def split: prod.splits)

lemma loop_fold:
  "saveLoop updateOne clock k (res, db) items = (res', db') \<Longrightarrow>
   db' u = foldl applyWrite (db u) (filter (\<lambda>w. d_url (fst w) = u) (writes clock k items))"
proof (induction items arbitrary: k res db)
  case Nil
  then show ?case by simp
next
  case (Cons item rest)
  let ?w = "(castUpdate (setOf item (clock k)), clock (k + 1), clock (k + 2))"
  let ?db1 = "db(urlKey item := applyWrite (db (urlKey item)) ?w)"
  obtain r1 where s: "saveOne updateOne (clock k) (clock (k + 1)) (clock (k + 2)) (res, db) item = (r1, ?db1)"
    by (simp add: saveOne_updateOne)
  from Cons.prems s have "saveLoop updateOne clock (k + 3) (r1, ?db1) rest = (res', db')"
    by simp
  from Cons.IH [OF this]
  have ih: "db' u = foldl applyWrite (?db1 u) (filter (\<lambda>w. d_url (fst w) = u) (writes clock (k + 3) rest))" .
  show ?case
  proof (cases "urlKey item = u")
    case True
    with ih show ?thesis by (simp add: wkey)
  next
    case False
    with ih show ?thesis by (simp add: wkey)
  qed
qed

lemma loop_counts:
  "saveLoop updateOne clock k (res, db) items = (res', db') \<Longrightarrow>
   errors res' = errors res \<and> dom db' = dom db \<union> urlKey ` set items \<and>
   saved res' = saved res + card (urlKey ` set items - dom db) \<and>
   saved res' + duplicates res' = saved res + duplicates res + length items"
proof (induction items arbitrary: k res db)
  case Nil
  then show ?case by simp
next
  case (Cons item rest)
  define u where "u = urlKey item"
  define U where "U = urlKey ` set rest"
  have fU: "finite U" by (simp add: U_def)
  have items: "urlKey ` set (item # rest) = insert u U" by (simp add: u_def U_def)
  obtain d where d: "applyWrite (db u) (castUpdate (setOf item (clock k)), clock (k + 1), clock (k + 2)) = Some d"
    using applyWrite_Some by blast
  define db1 where "db1 = db(u \<mapsto> d)"
  show ?case
  proof (cases "db u")
    case None
    have dom1: "dom db1 = insert u (dom db)" by (simp add: db1_def)
    from Cons.prems None d
    have "saveLoop updateOne clock (k + 3) (res\<lparr>saved := saved res + 1\<rparr>, db1) rest = (res', db')"
      by (simp add: saveOne_updateOne db1_def u_def)
    from Cons.IH [OF this]
    have ih: "errors res' = errors res" "dom db' = dom db1 \<union> U"
      "saved res' = saved res + 1 + card (U - dom db1)"
      "saved res' + duplicates res' = saved res + 1 + duplicates res + length rest"
      by (simp_all add: U_def)
    have nd: "u \<notin> dom db" using None by auto
    have "insert u U - dom db = insert u (U - insert u (dom db))"
      using nd by auto
    moreover have "u \<notin> U - insert u (dom db)" by simp
    moreover have "finite (U - insert u (dom db))" using fU by simp
    ultimately have "card (insert u U - dom db) = Suc (card (U - insert u (dom db)))"
      by (metis card_insert_disjoint)
    with ih dom1 show ?thesis unfolding items by auto
  next
    case (Some old)
    have du: "u \<in> dom db" using Some by auto
    then have dom1: "dom db1 = dom db" by (auto simp: db1_def)
    from Cons.prems Some d
    have "saveLoop updateOne clock (k + 3) (res\<lparr>duplicates := duplicates res + 1\<rparr>, db1) rest = (res', db')"
      by (simp add: saveOne_updateOne db1_def u_def)
    from Cons.IH [OF this]
    have ih: "errors res' = errors res" "dom db' = dom db1 \<union> U"
      "saved res' = saved res + card (U - dom db1)"
      "saved res' + duplicates res' = saved res + duplicates res + 1 + length rest"
      by (simp_all add: U_def)
    have "insert u U - dom db = U - dom db" using du by auto
    with ih dom1 du show ?thesis unfolding items by auto
  qed
qed

lemma writes_blank:
  "map (\<lambda>w. (fst w)\<lparr>d_scrapedAt := 0\<rparr>) (filter (\<lambda>w. d_url (fst w) = u) (writes clock k items)) =
   map (\<lambda>i. (castUpdate (setOf i 0))\<lparr>d_scrapedAt := 0\<rparr>) (filter (\<lambda>i. urlKey i = u) items)"
proof (induction items arbitrary: k)
  case Nil
  show ?case by simp
next
  case (Cons item rest)
  have "(castUpdate (setOf item t))\<lparr>d_scrapedAt := 0\<rparr> = (castUpdate (setOf item 0))\<lparr>d_scrapedAt := 0\<rparr>" for t
    by (simp add: castUpdate_def setOf_def)
  with Cons show ?case by (simp add: wkey)
qed

lemma writes_last:
  "u \<in> urlKey ` set items \<Longrightarrow>
   \<exists>j<length items. urlKey (items ! j) = u \<and> (\<forall>i<length items. j < i \<longrightarrow> urlKey (items ! i) \<noteq> u) \<and>
      filter (\<lambda>w. d_url (fst w) = u) (writes clock k items) \<noteq> [] \<and>
      last (filter (\<lambda>w. d_url (fst w) = u) (writes clock k items)) =
        (castUpdate (setOf (items ! j) (clock (k + 3 * j))), clock (k + 3 * j + 1), clock (k + 3 * j + 2))"
proof (induction items arbitrary: k)
  case Nil
  then show ?case by simp
next
  case (Cons item rest)
  let ?F = "\<lambda>k xs. filter (\<lambda>w. d_url (fst w) = u) (writes clock k xs)"
  show ?case
  proof (cases "u \<in> urlKey ` set rest")
    case True
    from Cons.IH [OF True, of "k + 3"] obtain j where j: "j < length rest" "urlKey (rest ! j) = u"
      "\<forall>i<length rest. j < i \<longrightarrow> urlKey (rest ! i) \<noteq> u" "?F (k + 3) rest \<noteq> []"
      "last (?F (k + 3) rest) =
        (castUpdate (setOf (rest ! j) (clock (k + 3 + 3 * j))), clock (k + 3 + 3 * j + 1), clock (k + 3 + 3 * j + 2))"
      by blast
    have a: "k + 3 + 3 * j = k + 3 * Suc j" by simp
    have l: "last (?F k (item # rest)) = last (?F (k + 3) rest)" using j(4) by simp
    have n: "?F k (item # rest) \<noteq> []" using j(4) by simp
    have later: "\<forall>i<length (item # rest). Suc j < i \<longrightarrow> urlKey ((item # rest) ! i) \<noteq> u"
    proof (intro allI impI)
      fix i assume "i < length (item # rest)" "Suc j < i"
      then obtain i' where "i = Suc i'" "i' < length rest" "j < i'" by (cases i) auto
      with j(3) show "urlKey ((item # rest) ! i) \<noteq> u" by simp
    qed
    have "Suc j < length (item # rest)" using j(1) by simp
    moreover have "urlKey ((item # rest) ! Suc j) = u" using j(2) by simp
    moreover have "last (?F k (item # rest)) =
        (castUpdate (setOf ((item # rest) ! Suc j) (clock (k + 3 * Suc j))),
         clock (k + 3 * Suc j + 1), clock (k + 3 * Suc j + 2))"
      unfolding l j(5) a by simp
    ultimately show ?thesis using later n by blast
  next
    case False
    with Cons.prems have u: "urlKey item = u" by auto
    have e: "?F (k + 3) rest = []"
    proof -
      have "map (\<lambda>w. (fst w)\<lparr>d_scrapedAt := 0\<rparr>) (?F (k + 3) rest) = []"
        unfolding writes_blank using False by (auto simp: filter_empty_conv)
      then show ?thesis by simp
    qed
    have later: "\<forall>i<length (item # rest). 0 < i \<longrightarrow> urlKey ((item # rest) ! i) \<noteq> u"
    proof (intro allI impI)
      fix i assume "i < length (item # rest)" "0 < i"
      then obtain i' where i: "i = Suc i'" "i' < length rest" by (cases i) auto
      then have "urlKey (rest ! i') \<in> urlKey ` set rest" by simp
      with False i show "urlKey ((item # rest) ! i) \<noteq> u" by auto
    qed
    have "last (?F k (item # rest)) =
        (castUpdate (setOf ((item # rest) ! 0) (clock (k + 3 * 0))), clock (k + 3 * 0 + 1), clock (k + 3 * 0 + 2))"
      using u e by (simp add: wkey)
    moreover have "?F k (item # rest) \<noteq> []" using u by (simp add: wkey)
    moreover have "0 < length (item # rest)" by simp
    moreover have "urlKey ((item # rest) ! 0) = u" using u by simp
    ultimately show ?thesis using later by blast
  qed
qed


lemma blank_fields:
  fixes ws1 ws2 :: "(set_doc \<times> int \<times> int) list"
  assumes "map (\<lambda>w. (fst w)\<lparr>d_scrapedAt := 0\<rparr>) ws1 = map (\<lambda>w. (fst w)\<lparr>d_scrapedAt := 0\<rparr>) ws2"
  shows "map (\<lambda>w. d_title (fst w)) ws1 = map (\<lambda>w. d_title (fst w)) ws2"
    "map (\<lambda>w. d_summary (fst w)) ws1 = map (\<lambda>w. d_summary (fst w)) ws2"
    "map (\<lambda>w. d_imageUrl (fst w)) ws1 = map (\<lambda>w. d_imageUrl (fst w)) ws2"
    "map (\<lambda>w. d_category (fst w)) ws1 = map (\<lambda>w. d_category (fst w)) ws2"
    "map (\<lambda>w. d_source (fst w)) ws1 = map (\<lambda>w. d_source (fst w)) ws2"
    "map (\<lambda>w. d_keywords (fst w)) ws1 = map (\<lambda>w. d_keywords (fst w)) ws2"
    "map (\<lambda>w. d_publishedAt (fst w)) ws1 = map (\<lambda>w. d_publishedAt (fst w)) ws2"
    "ws1 \<noteq> [] \<Longrightarrow> ws2 \<noteq> [] \<and> d_url (fst (last ws1)) = d_url (fst (last ws2)) \<and>
       d_isActive (fst (last ws1)) = d_isActive (fst (last ws2))"
proof -
  let ?B = "\<lambda>w :: set_doc \<times> int \<times> int. (fst w)\<lparr>d_scrapedAt := 0\<rparr>"
  show "map (\<lambda>w. d_title (fst w)) ws1 = map (\<lambda>w. d_title (fst w)) ws2"
    using arg_cong [OF assms, of "map d_title"] by (simp add: comp_def)
  show "map (\<lambda>w. d_summary (fst w)) ws1 = map (\<lambda>w. d_summary (fst w)) ws2"
    using arg_cong [OF assms, of "map d_summary"] by (simp add: comp_def)
  show "map (\<lambda>w. d_imageUrl (fst w)) ws1 = map (\<lambda>w. d_imageUrl (fst w)) ws2"
    using arg_cong [OF assms, of "map d_imageUrl"] by (simp add: comp_def)
  show "map (\<lambda>w. d_category (fst w)) ws1 = map (\<lambda>w. d_category (fst w)) ws2"
    using arg_cong [OF assms, of "map d_category"] by (simp add: comp_def)
  show "map (\<lambda>w. d_source (fst w)) ws1 = map (\<lambda>w. d_source (fst w)) ws2"
    using arg_cong [OF assms, of "map d_source"] by (simp add: comp_def)
  show "map (\<lambda>w. d_keywords (fst w)) ws1 = map (\<lambda>w. d_keywords (fst w)) ws2"
    using arg_cong [OF assms, of "map d_keywords"] by (simp add: comp_def)
  show "map (\<lambda>w. d_publishedAt (fst w)) ws1 = map (\<lambda>w. d_publishedAt (fst w)) ws2"
    using arg_cong [OF assms, of "map d_publishedAt"] by (simp add: comp_def)
  show "ws2 \<noteq> [] \<and> d_url (fst (last ws1)) = d_url (fst (last ws2)) \<and>
       d_isActive (fst (last ws1)) = d_isActive (fst (last ws2))" if n: "ws1 \<noteq> []"
  proof -
    have n2: "ws2 \<noteq> []" using assms n by auto
    have "last (map ?B ws1) = last (map ?B ws2)" using assms by simp
    then have "?B (last ws1) = ?B (last ws2)" using n n2 by (simp add: last_map)
    then have "d_url (?B (last ws1)) = d_url (?B (last ws2))"
      "d_isActive (?B (last ws1)) = d_isActive (?B (last ws2))" by simp_all
    with n2 show ?thesis by simp
  qed
qed

text \<open>Writing the same documents a second time changes the two times only.\<close>

lemma applyAll_twice:
  assumes "map (\<lambda>w. (fst w)\<lparr>d_scrapedAt := 0\<rparr>) ws1 = map (\<lambda>w. (fst w)\<lparr>d_scrapedAt := 0\<rparr>) ws2"
    and "ws1 \<noteq> []"
  shows "exceptTimes (applyAll ws2 (applyAll ws1 d)) = exceptTimes (applyAll ws1 d)"
proof -
  note f = blank_fields(1-7) [OF assms(1)]
  from blank_fields(8) [OF assms] have n2: "ws2 \<noteq> []"
    and l: "d_url (fst (last ws1)) = d_url (fst (last ws2))"
      "d_isActive (fst (last ws1)) = d_isActive (fst (last ws2))" by simp_all
  show ?thesis
    by (rule stored.equality)
       (simp_all add: exceptTimes_def applyAll_fields applyAll_last [OF n2] applyAll_last [OF assms(2)]
          f [symmetric] orLast_idem l)
qed

lemma written_last:
  assumes "ws \<noteq> []" "last ws = (castUpdate (setOf item t), c, now)"
  shows "written item t now (applyAll ws d)"
proof -
  have o: "orLast (map f ws) x = Some v" if "f (last ws) = Some v" for f :: "set_doc \<times> int \<times> int \<Rightarrow> 'b option" and x v
    using orLast_last [of "map f ws" v x] assms(1) that by (simp add: last_map)
  show ?thesis
    unfolding written_def applyAll_fields
    using applyAll_last [OF assms(1), of d]
    by (auto simp: assms(2) castUpdate_def setOf_def intro!: o)
qed


lemma foldl_applyWrite_nonempty:
  "ws \<noteq> [] \<Longrightarrow>
   foldl applyWrite old ws =
     Some (applyAll ws (case old of None \<Rightarrow> fresh (d_url (fst (hd ws))) (fst (snd (hd ws))) | Some d \<Rightarrow> d))"
  by (cases ws; cases old) (simp_all add: foldl_applyWrite_None foldl_applyWrite_Some del: foldl_Cons)

lemma writes_none:
  "u \<notin> urlKey ` set items \<Longrightarrow> filter (\<lambda>w. d_url (fst w) = u) (writes clock k items) = []"
proof -
  assume "u \<notin> urlKey ` set items"
  then have "map (\<lambda>w. (fst w)\<lparr>d_scrapedAt := 0\<rparr>) (filter (\<lambda>w. d_url (fst w) = u) (writes clock k items)) = []"
    unfolding writes_blank by (auto simp: filter_empty_conv)
  then show ?thesis by simp
qed

lemma writes_first:
  "u \<in> urlKey ` set items \<Longrightarrow>
   \<exists>j<length items. urlKey (items ! j) = u \<and> (\<forall>i<j. urlKey (items ! i) \<noteq> u) \<and>
      fst (snd (hd (filter (\<lambda>w. d_url (fst w) = u) (writes clock k items)))) = clock (k + 3 * j + 1)"
proof (induction items arbitrary: k)
  case Nil
  then show ?case by simp
next
  case (Cons item rest)
  show ?case
  proof (cases "urlKey item = u")
    case True
    have "0 < length (item # rest)" by simp
    moreover have "urlKey ((item # rest) ! 0) = u" using True by simp
    moreover have "fst (snd (hd (filter (\<lambda>w. d_url (fst w) = u) (writes clock k (item # rest))))) =
        clock (k + 3 * 0 + 1)" using True by (simp add: wkey)
    ultimately show ?thesis by blast
  next
    case False
    with Cons.prems have "u \<in> urlKey ` set rest" by auto
    from Cons.IH [OF this, of "k + 3"] obtain j where j: "j < length rest" "urlKey (rest ! j) = u"
      "\<forall>i<j. urlKey (rest ! i) \<noteq> u"
      "fst (snd (hd (filter (\<lambda>w. d_url (fst w) = u) (writes clock (k + 3) rest)))) = clock (k + 3 + 3 * j + 1)"
      by blast
    have a: "k + 3 + 3 * j + 1 = k + 3 * Suc j + 1" by simp
    have earlier: "\<forall>i<Suc j. urlKey ((item # rest) ! i) \<noteq> u"
    proof (intro allI impI)
      fix i assume "i < Suc j"
      then show "urlKey ((item # rest) ! i) \<noteq> u" using False j(3) by (cases i) auto
    qed
    have "Suc j < length (item # rest)" using j(1) by simp
    moreover have "urlKey ((item # rest) ! Suc j) = u" using j(2) by simp
    moreover have "fst (snd (hd (filter (\<lambda>w. d_url (fst w) = u) (writes clock k (item # rest))))) =
        clock (k + 3 * Suc j + 1)"
      using False j(4) unfolding a by (simp add: wkey)
    ultimately show ?thesis using earlier by blast
  qed
qed

lemma saveNews_loop:
  "saveNews upd clock db items = saveLoop upd clock 0 (\<lparr>saved = 0, duplicates = 0, errors = []\<rparr>, db) items"
  by (cases items) (simp_all add: saveNews_def)

subsection \<open>Two runs over the batch\<close>

lemma sample_key: "urlKey (sample t linkA) = linkA" "urlKey (sample t linkB) = linkB"
  "urlKey (sample t linkC) = linkC"
  by (simp_all add: urlKey_def sample_def links_trim)

lemma sample_casts:
  "trim (str ''Dolar bugun yatay seyretti'') = str ''Dolar bugun yatay seyretti''"
  "trim (toLowerCase (str ''Ekonomi'')) = str ''ekonomi''"
  "trim (toLowerCase (str ''NTV'')) = str ''ntv''"
  by (simp_all add: evs)

lemma dollar_write:
  "applySet (castUpdate (setOf (sample (str ''Dolar bugun yatay seyretti'') linkA) t)) now (fresh linkA c) =
     dollarDoc t c now"
  "applySet (castUpdate (setOf (sample (str ''Dolar bugun yatay seyretti'') linkA) t)) now (dollarDoc t' c u') =
     dollarDoc t c now"
  by (simp_all add: applySet_def castUpdate_def setOf_def sample_def fresh_def dollarDoc_def orOld_def
        links_trim sample_casts)

lemma wkey_sample: "d_url (castUpdate (setOf (sample t linkA) k)) = linkA"
  by (simp add: wkey sample_key)

lemma firstRun_value:
  "fst firstRun = \<lparr>saved = 3, duplicates = 0, errors = []\<rparr>"
  "snd firstRun linkA = Some (dollarDoc 0 1 2)"
  "snd firstRun linkB \<noteq> None" "snd firstRun linkC \<noteq> None"
  by (simp_all add: firstRun_def saveNews_loop batch_def saveOne_updateOne sample_key links_ne
        applyWrite_def wkey_sample dollar_write)

lemma secondRun_value:
  "fst secondRun = \<lparr>saved = 0, duplicates = 3, errors = []\<rparr>"
  "snd secondRun linkA = Some (dollarDoc 100 1 102)"
  unfolding secondRun_def
  by (simp_all add: saveNews_loop batch_def saveOne_updateOne sample_key links_ne
        applyWrite_def wkey_sample dollar_write firstRun_value)

text \<open>
  C9, as amended. With the upsert of the storage engine, a first run inserts one document for
  every url (trimmed) that was not stored and counts the other items as duplicates; a second
  run over the same items inserts nothing and counts every item as a duplicate. After the
  second run every stored document equals the one after the first run except for
  \<open>scrapedAt\<close> and \<open>updatedAt\<close>. \<open>createdAt\<close> is the one the document had, or the one
  of the insert, which is the turn of the first item with the url. The document shows the last
  item with its url: every property that the item defines is stored, after the setters of the
  schema, with \<open>isActive\<close> true, \<open>scrapedAt\<close> the item's or the time of the turn, and
  \<open>updatedAt\<close> the time at which the library read the clock in that turn.
\<close>

theorem saveNews_idempotent_upsert:
  "saveNews updateOne clock1 db items = (r1, db1) \<and>
   saveNews updateOne clock2 db1 items = (r2, db2) \<longrightarrow>
      saved r1 = card (urlKey ` set items - dom db) \<and>
      saved r1 + duplicates r1 = length items \<and> errors r1 = [] \<and>
      saved r2 = 0 \<and> duplicates r2 = length items \<and> errors r2 = [] \<and>
      dom db2 = dom db1 \<and>
      (\<forall>u. map_option exceptTimes (db2 u) = map_option exceptTimes (db1 u)) \<and>
      (\<forall>u d1 d2. db1 u = Some d1 \<and> db2 u = Some d2 \<longrightarrow> createdAt d2 = createdAt d1) \<and>
      (\<forall>u old. db u = Some old \<longrightarrow> (\<exists>d. db1 u = Some d \<and> createdAt d = createdAt old)) \<and>
      (\<forall>u\<in>urlKey ` set items - dom db.
          \<exists>d j. db1 u = Some d \<and> j < length items \<and> urlKey (items ! j) = u \<and>
             (\<forall>i<j. urlKey (items ! i) \<noteq> u) \<and> createdAt d = clock1 (3 * j + 1)) \<and>
      (\<forall>u\<in>urlKey ` set items.
          \<exists>d j. db2 u = Some d \<and> j < length items \<and> urlKey (items ! j) = u \<and>
             (\<forall>i<length items. j < i \<longrightarrow> urlKey (items ! i) \<noteq> u) \<and>
             written (items ! j) (clock2 (3 * j)) (clock2 (3 * j + 2)) d)"
proof (intro impI)
  assume runs: "saveNews updateOne clock1 db items = (r1, db1) \<and>
    saveNews updateOne clock2 db1 items = (r2, db2)"
  then have l1: "saveLoop updateOne clock1 0 (\<lparr>saved = 0, duplicates = 0, errors = []\<rparr>, db) items = (r1, db1)"
    and l2: "saveLoop updateOne clock2 0 (\<lparr>saved = 0, duplicates = 0, errors = []\<rparr>, db1) items = (r2, db2)"
    by (simp_all add: saveNews_loop)
  note c1 = loop_counts [OF l1] and c2 = loop_counts [OF l2]
  let ?W1 = "\<lambda>u. filter (\<lambda>w. d_url (fst w) = u) (writes clock1 0 items)"
  let ?W2 = "\<lambda>u. filter (\<lambda>w. d_url (fst w) = u) (writes clock2 0 items)"
  have f1: "db1 u = foldl applyWrite (db u) (?W1 u)" for u by (rule loop_fold [OF l1])
  have f2: "db2 u = foldl applyWrite (db1 u) (?W2 u)" for u by (rule loop_fold [OF l2])
  have p1: "saved r1 = card (urlKey ` set items - dom db)" using c1 by simp
  have p2: "saved r1 + duplicates r1 = length items" using c1 by simp
  have p3: "errors r1 = []" using c1 by simp
  have p6: "errors r2 = []" using c2 by simp
  have "urlKey ` set items - dom db1 = {}" using c1 by auto
  then have p4: "saved r2 = 0" using c2 by simp
  have p5: "duplicates r2 = length items" using c2 p4 by simp
  have p7: "dom db2 = dom db1" using c1 c2 by auto
  have kept: "\<exists>d. foldl applyWrite (Some old) ws = Some d \<and> createdAt d = createdAt old" for old ws
    by (simp add: foldl_applyWrite_Some applyAll_fields)
  have p8: "map_option exceptTimes (db2 u) = map_option exceptTimes (db1 u)" for u
  proof (cases "u \<in> urlKey ` set items")
    case False
    then show ?thesis using f2 [of u] by (simp add: writes_none)
  next
    case True
    from writes_last [OF True, of clock1 0] have n1: "?W1 u \<noteq> []" by blast
    have b: "map (\<lambda>w. (fst w)\<lparr>d_scrapedAt := 0\<rparr>) (?W1 u) = map (\<lambda>w. (fst w)\<lparr>d_scrapedAt := 0\<rparr>) (?W2 u)"
      by (simp only: writes_blank)
    obtain base where d1: "db1 u = Some (applyAll (?W1 u) base)"
      using f1 [of u] foldl_applyWrite_nonempty [OF n1] by simp
    have "db2 u = Some (applyAll (?W2 u) (applyAll (?W1 u) base))"
      using f2 [of u] d1 by (simp add: foldl_applyWrite_Some)
    with d1 applyAll_twice [OF b n1, of base] show ?thesis by simp
  qed
  have p9: "createdAt d2 = createdAt d1" if "db1 u = Some d1 \<and> db2 u = Some d2" for u d1 d2
    using that f2 [of u] kept [of d1 "?W2 u"] by auto
  have p10: "\<exists>d. db1 u = Some d \<and> createdAt d = createdAt old" if "db u = Some old" for u old
    using that f1 [of u] kept [of old "?W1 u"] by auto
  have p11: "\<exists>d j. db1 u = Some d \<and> j < length items \<and> urlKey (items ! j) = u \<and>
             (\<forall>i<j. urlKey (items ! i) \<noteq> u) \<and> createdAt d = clock1 (3 * j + 1)"
    if "u \<in> urlKey ` set items - dom db" for u
  proof -
    from that have k: "u \<in> urlKey ` set items" and n: "db u = None" by auto
    from writes_last [OF k, of clock1 0] have n1: "?W1 u \<noteq> []" by blast
    from writes_first [OF k, of clock1 0] obtain j where j: "j < length items" "urlKey (items ! j) = u"
      "\<forall>i<j. urlKey (items ! i) \<noteq> u" "fst (snd (hd (?W1 u))) = clock1 (3 * j + 1)" by auto
    have "db1 u = Some (applyAll (?W1 u) (fresh (d_url (fst (hd (?W1 u)))) (fst (snd (hd (?W1 u))))))"
      using f1 [of u] n foldl_applyWrite_nonempty [OF n1, of None] by simp
    moreover have "createdAt (applyAll (?W1 u) (fresh (d_url (fst (hd (?W1 u)))) (fst (snd (hd (?W1 u)))))) =
        clock1 (3 * j + 1)"
      by (simp add: applyAll_fields fresh_def j(4))
    ultimately show ?thesis using j by blast
  qed
  have p12: "\<exists>d j. db2 u = Some d \<and> j < length items \<and> urlKey (items ! j) = u \<and>
             (\<forall>i<length items. j < i \<longrightarrow> urlKey (items ! i) \<noteq> u) \<and>
             written (items ! j) (clock2 (3 * j)) (clock2 (3 * j + 2)) d"
    if k: "u \<in> urlKey ` set items" for u
  proof -
    from writes_last [OF k, of clock2 0] obtain j where j: "j < length items" "urlKey (items ! j) = u"
      "\<forall>i<length items. j < i \<longrightarrow> urlKey (items ! i) \<noteq> u" "?W2 u \<noteq> []"
      "last (?W2 u) = (castUpdate (setOf (items ! j) (clock2 (3 * j))), clock2 (3 * j + 1), clock2 (3 * j + 2))"
      by auto
    obtain base where "db2 u = Some (applyAll (?W2 u) base)"
      using f2 [of u] foldl_applyWrite_nonempty [OF j(4)] by simp
    moreover have "written (items ! j) (clock2 (3 * j)) (clock2 (3 * j + 2)) (applyAll (?W2 u) base)"
      using j(4,5) by (rule written_last)
    ultimately show ?thesis using j by blast
  qed
  from p1 p2 p3 p4 p5 p6 p7 p8 p9 p10 p11 p12
  show "saved r1 = card (urlKey ` set items - dom db) \<and>
      saved r1 + duplicates r1 = length items \<and> errors r1 = [] \<and>
      saved r2 = 0 \<and> duplicates r2 = length items \<and> errors r2 = [] \<and>
      dom db2 = dom db1 \<and>
      (\<forall>u. map_option exceptTimes (db2 u) = map_option exceptTimes (db1 u)) \<and>
      (\<forall>u d1 d2. db1 u = Some d1 \<and> db2 u = Some d2 \<longrightarrow> createdAt d2 = createdAt d1) \<and>
      (\<forall>u old. db u = Some old \<longrightarrow> (\<exists>d. db1 u = Some d \<and> createdAt d = createdAt old)) \<and>
      (\<forall>u\<in>urlKey ` set items - dom db.
          \<exists>d j. db1 u = Some d \<and> j < length items \<and> urlKey (items ! j) = u \<and>
             (\<forall>i<j. urlKey (items ! i) \<noteq> u) \<and> createdAt d = clock1 (3 * j + 1)) \<and>
      (\<forall>u\<in>urlKey ` set items.
          \<exists>d j. db2 u = Some d \<and> j < length items \<and> urlKey (items ! j) = u \<and>
             (\<forall>i<length items. j < i \<longrightarrow> urlKey (items ! i) \<noteq> u) \<and>
             written (items ! j) (clock2 (3 * j)) (clock2 (3 * j + 2)) d)"
    by (intro conjI allI impI ballI) auto
qed

theorem saveNews_idempotent_upsert_witness:
  "saveNews updateOne (\<lambda>k. int k) Map.empty batch = firstRun \<and>
   saveNews updateOne (\<lambda>k. 100 + int k) (snd firstRun) batch = secondRun \<and>
   fst firstRun = \<lparr>saved = 3, duplicates = 0, errors = []\<rparr> \<and>
   fst secondRun = \<lparr>saved = 0, duplicates = 3, errors = []\<rparr> \<and>
   snd firstRun linkA = Some (dollarDoc 0 1 2) \<and>
   snd secondRun linkA = Some (dollarDoc 100 1 102) \<and>
   map_option exceptTimes (snd secondRun linkA) = map_option exceptTimes (snd firstRun linkA)"
proof -
  have r1: "saveNews updateOne (\<lambda>k. int k) Map.empty batch = (fst firstRun, snd firstRun)"
    by (simp add: firstRun_def)
  have r2: "saveNews updateOne (\<lambda>k. 100 + int k) (snd firstRun) batch = (fst secondRun, snd secondRun)"
    by (simp add: secondRun_def)
  have both: "saveNews updateOne (\<lambda>k. int k) Map.empty batch = (fst firstRun, snd firstRun) \<and>
    saveNews updateOne (\<lambda>k. 100 + int k) (snd firstRun) batch = (fst secondRun, snd secondRun)"
    using r1 r2 by (rule conjI)
  have all: "\<forall>u. map_option exceptTimes (snd secondRun u) = map_option exceptTimes (snd firstRun u)"
    using saveNews_idempotent_upsert [of "\<lambda>k. int k" Map.empty batch "fst firstRun" "snd firstRun"
      "\<lambda>k. 100 + int k" "fst secondRun" "snd secondRun", rule_format, OF both]
    by (elim conjE)
  have f7: "map_option exceptTimes (snd secondRun linkA) = map_option exceptTimes (snd firstRun linkA)"
    using all by (rule spec)
  have f1: "saveNews updateOne (\<lambda>k. int k) Map.empty batch = firstRun"
    by (simp only: firstRun_def)
  have f2: "saveNews updateOne (\<lambda>k. 100 + int k) (snd firstRun) batch = secondRun"
    by (simp only: secondRun_def)
  show ?thesis
    by (intro conjI) (rule f1 f2 firstRun_value secondRun_value f7)+
qed

text \<open>
  C9 as stated fails: the stored document differs after the second run in \<open>updatedAt\<close> as
  well as in \<open>scrapedAt\<close>. For the first item of the batch, \<open>updatedAt\<close> is the instant 2
  after the first run and the instant 102 after the second, so the two documents differ also
  when \<open>scrapedAt\<close> is blanked.
\<close>

theorem saveNews_updatedAt_counterexample:
  "saveNews updateOne (\<lambda>k. int k) Map.empty batch = firstRun \<and>
   saveNews updateOne (\<lambda>k. 100 + int k) (snd firstRun) batch = secondRun \<and>
   snd firstRun linkA = Some (dollarDoc 0 1 2) \<and>
   snd secondRun linkA = Some (dollarDoc 100 1 102) \<and>
   updatedAt (dollarDoc 0 1 2) = 2 \<and> updatedAt (dollarDoc 100 1 102) = 102 \<and>
   exceptScrapedAt (dollarDoc 100 1 102) \<noteq> exceptScrapedAt (dollarDoc 0 1 2) \<and>
   map_option exceptScrapedAt (snd secondRun linkA) \<noteq> map_option exceptScrapedAt (snd firstRun linkA)"
proof -
  have f1: "saveNews updateOne (\<lambda>k. int k) Map.empty batch = firstRun"
    by (simp only: firstRun_def)
  have f2: "saveNews updateOne (\<lambda>k. 100 + int k) (snd firstRun) batch = secondRun"
    by (simp only: secondRun_def)
  have u: "updatedAt (dollarDoc 0 1 2) = 2" "updatedAt (dollarDoc 100 1 102) = 102"
    by (simp_all add: dollarDoc_def)
  have ne: "exceptScrapedAt (dollarDoc 100 1 102) \<noteq> exceptScrapedAt (dollarDoc 0 1 2)"
    by (simp add: exceptScrapedAt_def dollarDoc_def)
  then have ne': "map_option exceptScrapedAt (snd secondRun linkA) \<noteq> map_option exceptScrapedAt (snd firstRun linkA)"
    by (simp add: firstRun_value secondRun_value)
  show ?thesis
    by (intro conjI) (rule f1 f2 firstRun_value secondRun_value u ne ne')+
qed

end
